theory Spec2Isabelle
  imports Main
begin

section \<open>The autopilot of the slide deck (\<^verbatim>\<open>slides/autopilot/autotest.py\<close>)\<close>

text \<open>
  The script replays the snippets of a slide deck in a tmux session.  It is one Python module:
  a persisted \<^verbatim>\<open>State\<close>, a \<^verbatim>\<open>Remote\<close> that follows the slides in a browser, the polling
  helpers \<^verbatim>\<open>wait_for_string\<close>, \<^verbatim>\<open>wait_for_prompt\<close>, \<^verbatim>\<open>check_exit_status\<close>, \<^verbatim>\<open>send_keys\<close>,
  and the main loop.

  Everything outside the process (tmux, the clock, the operator's keyboard, the file
  \<^verbatim>\<open>state.yaml\<close>, the libraries \<^verbatim>\<open>re\<close>, \<^verbatim>\<open>uuid\<close>, \<^verbatim>\<open>random\<close>) is explicit: what the process
  reads comes from an oracle \<open>env\<close>, what it does is appended to a trace of events, and an
  exception is a value \<open>Inl (error, world)\<close> that keeps the world in which it was raised.
  Strings are lists of \<^typ>\<open>char\<close>; Python integers are \<^typ>\<open>int\<close>.
\<close>

subsection \<open>Python strings\<close>

text \<open>\<^verbatim>\<open>str.startswith\<close>, \<^verbatim>\<open>str.endswith\<close> and the substring test \<^verbatim>\<open>s in output\<close>.\<close>

fun startswith :: "string \<Rightarrow> string \<Rightarrow> bool" where
  "startswith s [] = True"
| "startswith [] (p # ps) = False"
| "startswith (c # cs) (p # ps) = (c = p \<and> startswith cs ps)"

definition endswith :: "string \<Rightarrow> string \<Rightarrow> bool" where
  "endswith s suf = startswith (rev s) (rev suf)"

fun py_in :: "string \<Rightarrow> string \<Rightarrow> bool" where
  "py_in needle [] = (needle = [])"
| "py_in needle (c # cs) = (startswith (c # cs) needle \<or> py_in needle cs)"

text \<open>The characters \<^verbatim>\<open>str.strip()\<close> removes.  A \<^typ>\<open>char\<close> stands for a code point below 256;
  among these Python 3 takes as whitespace the space, \<^verbatim>\<open>\t \n \v \f \r\<close>, the separators
  \<^verbatim>\<open>0x1c\<close> to \<^verbatim>\<open>0x1f\<close>, the next-line character \<^verbatim>\<open>0x85\<close> and the no-break space \<^verbatim>\<open>0xa0\<close>.\<close>

definition isspace :: "char \<Rightarrow> bool" where
  "isspace c = (c \<in> {CHR '' '', CHR 0x09, CHR 0x0A, CHR 0x0B, CHR 0x0C, CHR 0x0D,
                      CHR 0x1C, CHR 0x1D, CHR 0x1E, CHR 0x1F, CHR 0x85, CHR 0xA0})"

definition rstrip_chars :: "(char \<Rightarrow> bool) \<Rightarrow> string \<Rightarrow> string" where
  "rstrip_chars P s = rev (dropWhile P (rev s))"

definition strip :: "string \<Rightarrow> string" where
  "strip s = rstrip_chars isspace (dropWhile isspace s)"

text \<open>\<^verbatim>\<open>output.rstrip('\n')\<close>.\<close>

definition rstrip_nl :: "string \<Rightarrow> string" where
  "rstrip_nl s = rstrip_chars (\<lambda>c. c = CHR 0x0A) s"

text \<open>\<^verbatim>\<open>s.replace(c, '')\<close> for a one-character \<open>c\<close>, and \<^verbatim>\<open>s.replace(old, new)\<close> for a
  non-empty \<open>old\<close> given as its first character and its rest: the occurrences are replaced
  from left to right and do not overlap.\<close>

definition remove_char :: "char \<Rightarrow> string \<Rightarrow> string" where
  "remove_char c s = filter (\<lambda>x. x \<noteq> c) s"

function replace :: "char \<Rightarrow> string \<Rightarrow> string \<Rightarrow> string \<Rightarrow> string" where
  "replace o1 os new [] = []"
| "replace o1 os new (c # cs) =
     (if startswith (c # cs) (o1 # os) then new @ replace o1 os new (drop (length os) cs)
      else c # replace o1 os new cs)"
  by pat_completeness auto
termination
  by (relation "measure (\<lambda>(o1, os, new, s). length s)") auto

definition is_digit :: "char \<Rightarrow> bool" where
  "is_digit c = (48 \<le> (of_char c :: nat) \<and> (of_char c :: nat) \<le> 57)"

definition int_of_digits :: "string \<Rightarrow> int" where
  "int_of_digits s = foldl (\<lambda>a c. 10 * a + (int (of_char c) - 48)) 0 s"

subsection \<open>Errors\<close>

text \<open>One constructor for each exception the script can raise: those of the interpreter and
  the libraries, and the \<^verbatim>\<open>Exception(...)\<close> of each \<^verbatim>\<open>raise\<close> of the script.\<close>

datatype error =
    IOError
  | TypeError
  | KeyError string
  | ValueError
  | IndexError
  | NameError string
  | AttributeError
  | RegexError
  | Timeout_string string       \<comment> \<open>\<^verbatim>\<open>Timed out while waiting for {}!\<close>\<close>
  | Timeout_prompt              \<comment> \<open>\<^verbatim>\<open>Timed out while waiting for prompt!\<close>\<close>
  | No_status string            \<comment> \<open>\<^verbatim>\<open>Couldn't retrieve status code {}. Timed out?\<close>\<close>
  | Double_status string        \<comment> \<open>\<^verbatim>\<open>More than one status code {}. ...\<close>\<close>
  | Nonzero_status int          \<comment> \<open>\<^verbatim>\<open>Non-zero exit status: {}.\<close>\<close>
  | No_regex_match string       \<comment> \<open>\<^verbatim>\<open>Could not find regex {} in output.\<close>\<close>

subsection \<open>The values of a YAML document\<close>

text \<open>What \<^verbatim>\<open>yaml.load\<close> returns, for documents made of null, booleans, integers, strings,
  sequences and mappings with string keys (floats are left out).  \<open>py_bool\<close>, \<open>py_int\<close> and
  \<open>py_getitem\<close> are Python's \<^verbatim>\<open>bool(x)\<close>, \<^verbatim>\<open>int(x)\<close> and \<^verbatim>\<open>x[key]\<close> on them.\<close>

datatype pyval =
    PNone
  | PBool bool
  | PInt int
  | PStr string
  | PList "pyval list"
  | PDict "(string \<times> pyval) list"

fun py_bool :: "pyval \<Rightarrow> bool" where
  "py_bool PNone = False"
| "py_bool (PBool b) = b"
| "py_bool (PInt n) = (n \<noteq> 0)"
| "py_bool (PStr s) = (s \<noteq> [])"
| "py_bool (PList xs) = (xs \<noteq> [])"
| "py_bool (PDict kvs) = (kvs \<noteq> [])"

text \<open>\<^verbatim>\<open>int(s)\<close> on a string: surrounding whitespace, an optional sign, then decimal digits
  that single underscores may separate.\<close>

definition valid_int_body :: "string \<Rightarrow> bool" where
  "valid_int_body s =
     (s \<noteq> [] \<and> hd s \<noteq> CHR ''_'' \<and> last s \<noteq> CHR ''_'' \<and> \<not> py_in ''__'' s \<and>
      list_all (\<lambda>c. is_digit c \<or> c = CHR ''_'') s)"

definition int_of_string :: "string \<Rightarrow> error + int" where
  "int_of_string s =
     (let t = strip s;
          neg = startswith t ''-'';
          body = (if startswith t ''-'' \<or> startswith t ''+'' then tl t else t)
      in if valid_int_body body
         then Inr ((if neg then -1 else 1) * int_of_digits (remove_char CHR ''_'' body))
         else Inl ValueError)"

fun py_int :: "pyval \<Rightarrow> error + int" where
  "py_int PNone = Inl TypeError"
| "py_int (PBool b) = Inr (if b then 1 else 0)"
| "py_int (PInt n) = Inr n"
| "py_int (PStr s) = int_of_string s"
| "py_int (PList xs) = Inl TypeError"
| "py_int (PDict kvs) = Inl TypeError"

fun py_getitem :: "pyval \<Rightarrow> string \<Rightarrow> error + pyval" where
  "py_getitem (PDict kvs) k = (case map_of kvs k of None \<Rightarrow> Inl (KeyError k) | Some v \<Rightarrow> Inr v)"
| "py_getitem v k = Inl TypeError"

subsection \<open>The class \<^verbatim>\<open>State\<close>\<close>

record state =
  interactive :: bool
  verify_status :: bool
  simulate_type :: bool
  next_step :: int

text \<open>\<^verbatim>\<open>State.__init__\<close>.\<close>

definition State_init :: state where
  "State_init = \<lparr>interactive = True, verify_status = False, simulate_type = True, next_step = 0\<rparr>"

text \<open>
  \<^verbatim>\<open>State.load\<close>.  The file \<^verbatim>\<open>state.yaml\<close> is given by the value \<^verbatim>\<open>yaml.load\<close> reads from it,
  \<open>None\<close> when it cannot be opened or parsed.  The four assignments run one after the other on
  the object itself, so an exception leaves the fields assigned before it: the error comes
  with the object as it is then.
\<close>

definition load :: "pyval option \<Rightarrow> state \<Rightarrow> (error \<times> state) + state" where
  "load file s =
     (case file of
        None \<Rightarrow> Inl (IOError, s)
      | Some data \<Rightarrow>
         (case py_getitem data ''interactive'' of
            Inl e \<Rightarrow> Inl (e, s)
          | Inr v1 \<Rightarrow>
             let s1 = s\<lparr>interactive := py_bool v1\<rparr> in
             (case py_getitem data ''verify_status'' of
                Inl e \<Rightarrow> Inl (e, s1)
              | Inr v2 \<Rightarrow>
                 let s2 = s1\<lparr>verify_status := py_bool v2\<rparr> in
                 (case py_getitem data ''simulate_type'' of
                    Inl e \<Rightarrow> Inl (e, s2)
                  | Inr v3 \<Rightarrow>
                     let s3 = s2\<lparr>simulate_type := py_bool v3\<rparr> in
                     (case py_getitem data ''next_step'' of
                        Inl e \<Rightarrow> Inl (e, s3)
                      | Inr v4 \<Rightarrow>
                         (case py_int v4 of
                            Inl e \<Rightarrow> Inl (e, s3)
                          | Inr n \<Rightarrow> Inr (s3\<lparr>next_step := n\<rparr>)))))))"

text \<open>The dictionary \<^verbatim>\<open>State.save\<close> hands to \<^verbatim>\<open>yaml.dump\<close>.\<close>

definition dump :: "state \<Rightarrow> pyval" where
  "dump s = PDict [(''interactive'', PBool (interactive s)),
                   (''verify_status'', PBool (verify_status s)),
                   (''simulate_type'', PBool (simulate_type s)),
                   (''next_step'', PInt (next_step s))]"

text \<open>
  The start of the script (lines 150 and 284 to 293): a fresh \<^verbatim>\<open>State()\<close>, then
  \<^verbatim>\<open>state.load()\<close> followed by \<^verbatim>\<open>state.interactive = True\<close> inside the \<^verbatim>\<open>try\<close>; the \<^verbatim>\<open>except\<close>
  branch only logs.
\<close>

definition startup_load :: "pyval option \<Rightarrow> state" where
  "startup_load file =
     (case load file State_init of
        Inr s \<Rightarrow> s\<lparr>interactive := True\<rparr>
      | Inl (e, s) \<Rightarrow> s)"

subsection \<open>The environment and the world\<close>

text \<open>
  What the process reads from outside is an oracle: the \<open>k\<close>-th call of
  \<^verbatim>\<open>tmux capture-pane\<close> returns \<open>screen_of E k\<close>, the \<open>k\<close>-th \<^verbatim>\<open>click.getchar()\<close> returns
  \<open>key_of E k\<close>, the \<open>k\<close>-th \<^verbatim>\<open>click.prompt(..., type=int)\<close> returns \<open>number_of E k\<close>, the
  \<open>k\<close>-th \<^verbatim>\<open>0.2*random.random()\<close> is \<open>jitter_of E k mod 200\<close> milliseconds and the \<open>k\<close>-th
  \<^verbatim>\<open>uuid.uuid4().hex\<close> is \<open>token_of E k\<close> (32 hexadecimal digits, so a token holds no
  character that is special in a regular expression).

  Matching a pattern taken from the slides is the library's work: \<open>re_scan E pattern text\<close>
  is \<open>None\<close> when \<^verbatim>\<open>re\<close> rejects the pattern (\<^verbatim>\<open>re.error\<close>), and otherwise the non-overlapping
  matches of the pattern in the text under \<^verbatim>\<open>re.DOTALL\<close>, from left to right, each with the
  text it matched and the texts of its groups.  \<^verbatim>\<open>re.findall\<close> turns each of them into an item
  of its result, as the library documents: the matched text for a pattern without a group,
  the text of the group for a pattern with one group, and the tuple of the groups for a
  pattern with more.
\<close>

datatype re_match = Text string | Groups "string list"

definition findall_item :: "string \<times> string list \<Rightarrow> re_match" where
  "findall_item m =
     (case snd m of
        [] \<Rightarrow> Text (fst m)
      | [g] \<Rightarrow> Text g
      | g # h # gs \<Rightarrow> Groups (g # h # gs))"

record env =
  screen_of :: "nat \<Rightarrow> string"
  key_of :: "nat \<Rightarrow> string"
  number_of :: "nat \<Rightarrow> int"
  jitter_of :: "nat \<Rightarrow> nat"
  token_of :: "nat \<Rightarrow> string"
  re_scan :: "string \<Rightarrow> string \<Rightarrow> (string \<times> string list) list option"

text \<open>What the process does outside: one event for each subprocess, sleep, read of the
  keyboard and write of \<^verbatim>\<open>state.yaml\<close>.  Printing and logging are not recorded.\<close>

datatype event =
    Tmux_send string            \<comment> \<open>\<^verbatim>\<open>tmux send-keys <keys>\<close>\<close>
  | Tmux_capture string         \<comment> \<open>\<^verbatim>\<open>tmux capture-pane -p\<close> and the text it printed\<close>
  | Sleep nat                   \<comment> \<open>\<^verbatim>\<open>time.sleep\<close>, in milliseconds\<close>
  | Goto_slide int              \<comment> \<open>\<^verbatim>\<open>./gotoslide.js <n>\<close>\<close>
  | Workspace nat               \<comment> \<open>\<^verbatim>\<open>i3-msg workspace <n>\<close>\<close>
  | Xdg_open string             \<comment> \<open>\<^verbatim>\<open>xdg-open <url>\<close>\<close>
  | Getchar string              \<comment> \<open>\<^verbatim>\<open>click.getchar()\<close> and the key it returned\<close>
  | Prompt_int int              \<comment> \<open>\<^verbatim>\<open>click.prompt\<close> and the number it returned\<close>
  | Save_state pyval            \<comment> \<open>\<^verbatim>\<open>state.yaml\<close> rewritten with this document\<close>

text \<open>
  The world: the clock in milliseconds (\<^verbatim>\<open>time.sleep\<close> alone moves it: the calls between two
  sleeps take no time), how far each oracle has been read, the content of \<^verbatim>\<open>state.yaml\<close>, the
  field \<^verbatim>\<open>slide_on_screen\<close> of the one \<^verbatim>\<open>Remote\<close> object, and the trace.  The subprocesses are
  taken to succeed.
\<close>

record world =
  now :: nat
  captures :: nat
  keys_read :: nat
  numbers_read :: nat
  randoms :: nat
  tokens :: nat
  state_yaml :: "pyval option"
  slide_on_screen :: int
  trace :: "event list"

type_synonym fault = "error \<times> world"

abbreviation NL :: char where
  "NL \<equiv> CHR 0x0A"

text \<open>\<^verbatim>\<open>TIMEOUT = 60\<close> seconds.\<close>

definition TIMEOUT :: nat where
  "TIMEOUT = 60000"

definition sleep :: "nat \<Rightarrow> world \<Rightarrow> world" where
  "sleep d w = w\<lparr>now := now w + d, trace := trace w @ [Sleep d]\<rparr>"

definition random_sleep :: "env \<Rightarrow> world \<Rightarrow> world" where
  "random_sleep E w =
     (let d = jitter_of E (randoms w) mod 200
      in w\<lparr>now := now w + d, randoms := randoms w + 1, trace := trace w @ [Sleep d]\<rparr>)"

definition tmux_send :: "string \<Rightarrow> world \<Rightarrow> world" where
  "tmux_send ks w = w\<lparr>trace := trace w @ [Tmux_send ks]\<rparr>"

definition capture_pane :: "env \<Rightarrow> world \<Rightarrow> string \<times> world" where
  "capture_pane E w =
     (screen_of E (captures w),
      w\<lparr>captures := captures w + 1, trace := trace w @ [Tmux_capture (screen_of E (captures w))]\<rparr>)"

definition getchar :: "env \<Rightarrow> world \<Rightarrow> string \<times> world" where
  "getchar E w =
     (key_of E (keys_read w),
      w\<lparr>keys_read := keys_read w + 1, trace := trace w @ [Getchar (key_of E (keys_read w))]\<rparr>)"

definition prompt_int :: "env \<Rightarrow> world \<Rightarrow> int \<times> world" where
  "prompt_int E w =
     (number_of E (numbers_read w),
      w\<lparr>numbers_read := numbers_read w + 1,
        trace := trace w @ [Prompt_int (number_of E (numbers_read w))]\<rparr>)"

text \<open>\<^verbatim>\<open>State.save\<close>: the file is opened for writing and \<^verbatim>\<open>yaml.dump\<close> writes the dictionary.
  The write is taken to succeed and to be whole, and \<^verbatim>\<open>yaml.load\<close> to read back the mapping
  of booleans and integers that \<^verbatim>\<open>yaml.dump\<close> wrote.\<close>

definition save :: "state \<Rightarrow> world \<Rightarrow> world" where
  "save s w = w\<lparr>state_yaml := Some (dump s), trace := trace w @ [Save_state (dump s)]\<rparr>"

subsection \<open>\<^verbatim>\<open>send_keys\<close>\<close>

text \<open>One pass of the \<^verbatim>\<open>for key in data\<close> loop: a semicolon is sent as backslash and
  semicolon, a newline is sent between two sleeps of one second, and every key is followed
  by the random delay.\<close>

definition type_key :: "env \<Rightarrow> char \<Rightarrow> world \<Rightarrow> world" where
  "type_key E c w =
     (let key = (if c = CHR '';'' then [CHR 0x5C, CHR '';''] else [c]);
          w1 = (if key = [NL] then sleep 1000 w else w);
          w2 = random_sleep E (tmux_send key w1)
      in if key = [NL] then sleep 1000 w2 else w2)"

fun type_keys :: "env \<Rightarrow> string \<Rightarrow> world \<Rightarrow> world" where
  "type_keys E [] w = w"
| "type_keys E (c # cs) w = type_keys E cs (type_key E c w)"

text \<open>\<^verbatim>\<open>if state.simulate_type and data[0] != '^'\<close>: with \<^verbatim>\<open>simulate_type\<close> on, \<^verbatim>\<open>data[0]\<close> is
  evaluated and raises \<^verbatim>\<open>IndexError\<close> on the empty string.\<close>

definition send_keys :: "env \<Rightarrow> state \<Rightarrow> string \<Rightarrow> world \<Rightarrow> fault + world" where
  "send_keys E st data w =
     (if simulate_type st then
        (case data of
           [] \<Rightarrow> Inl (IndexError, w)
         | c # cs \<Rightarrow> if c \<noteq> CHR ''^'' then Inr (type_keys E data w) else Inr (tmux_send data w))
      else Inr (tmux_send data w))"

subsection \<open>\<^verbatim>\<open>wait_for_string\<close> and \<^verbatim>\<open>wait_for_prompt\<close>\<close>

function poll_string :: "env \<Rightarrow> string \<Rightarrow> nat \<Rightarrow> world \<Rightarrow> fault + world" where
  "poll_string E s deadline w =
     (if now w < deadline then
        (if py_in s (fst (capture_pane E w)) then Inr (snd (capture_pane E w))
         else poll_string E s deadline (sleep 1000 (snd (capture_pane E w))))
      else Inl (Timeout_string s, w))"
  by pat_completeness auto
termination
  by (relation "measure (\<lambda>(E, s, deadline, w). deadline - now w)")
     (auto simp: sleep_def capture_pane_def)

declare poll_string.simps [simp del]

definition wait_for_string :: "env \<Rightarrow> string \<Rightarrow> nat \<Rightarrow> world \<Rightarrow> fault + world" where
  "wait_for_string E s timeout w = poll_string E s (now w + timeout) w"

text \<open>The test of \<^verbatim>\<open>wait_for_prompt\<close> on one capture: \<^verbatim>\<open>output.rstrip('\n')\<close> ends with
  newline and dollar, or with newline, slash, space and hash.\<close>

definition at_prompt :: "string \<Rightarrow> bool" where
  "at_prompt output =
     (endswith (rstrip_nl output) [NL, CHR ''$''] \<or>
      endswith (rstrip_nl output) [NL, CHR ''/'', CHR '' '', CHR ''#''])"

function poll_prompt :: "env \<Rightarrow> nat \<Rightarrow> world \<Rightarrow> fault + world" where
  "poll_prompt E deadline w =
     (if now w < deadline then
        (if at_prompt (fst (capture_pane E w)) then Inr (snd (capture_pane E w))
         else poll_prompt E deadline (sleep 1000 (snd (capture_pane E w))))
      else Inl (Timeout_prompt, w))"
  by pat_completeness auto
termination
  by (relation "measure (\<lambda>(E, deadline, w). deadline - now w)")
     (auto simp: sleep_def capture_pane_def)

declare poll_prompt.simps [simp del]

definition wait_for_prompt :: "env \<Rightarrow> world \<Rightarrow> fault + world" where
  "wait_for_prompt E w = poll_prompt E (now w + TIMEOUT) w"

subsection \<open>\<^verbatim>\<open>check_exit_status\<close>\<close>

text \<open>
  \<^verbatim>\<open>re.findall("\n{} ([0-9]+)\n".format(token), screen, re.MULTILINE)\<close>.  \<open>status_match\<close> is one
  attempt at the start of the text: newline, the token, a space, as many digits as there
  are and at least one, a newline; it yields the digits and the text after the closing
  newline.  \<^verbatim>\<open>findall\<close> tries every position from left to right and resumes after the end of
  a match, so that matches do not overlap.
\<close>

definition status_match :: "string \<Rightarrow> string \<Rightarrow> (string \<times> string) option" where
  "status_match token s =
     (if startswith s (NL # token @ '' '') then
        (let rest = drop (length token + 2) s;
             digits = takeWhile is_digit rest;
             after = dropWhile is_digit rest
         in if digits \<noteq> [] \<and> startswith after [NL] then Some (digits, tl after) else None)
      else None)"

function findall_status :: "string \<Rightarrow> string \<Rightarrow> string list" where
  "findall_status token [] = []"
| "findall_status token (c # cs) =
     (case status_match token (c # cs) of
        Some (digits, rest) \<Rightarrow> digits # findall_status token rest
      | None \<Rightarrow> findall_status token cs)"
  by pat_completeness auto
termination
proof (relation "measure (\<lambda>(token, s). length s)")
  fix token :: string and c cs digits rest and m :: "string \<times> string"
  assume a: "status_match token (c # cs) = Some m" and m: "(digits, rest) = m"
  let ?s = "c # cs"
  from a m have r: "rest = tl (dropWhile is_digit (drop (length token + 2) ?s))"
    and d: "takeWhile is_digit (drop (length token + 2) ?s) \<noteq> []"
    by (auto simp: status_match_def Let_def simp del: drop_Suc_Cons split: if_splits)
  from d have "drop (length token + 2) ?s \<noteq> []" by auto
  then have "length token + 2 < length ?s" by simp
  moreover have "length (dropWhile is_digit (drop (length token + 2) ?s))
      \<le> length (drop (length token + 2) ?s)"
    by (rule length_dropWhile_le)
  then have "length rest \<le> length ?s - (length token + 2)"
    unfolding r by simp
  ultimately have "length rest < length ?s" by simp
  then show "((token, rest), (token, c # cs)) \<in> measure (\<lambda>(token, s). length s)"
    by simp
qed auto

definition check_exit_status :: "env \<Rightarrow> state \<Rightarrow> world \<Rightarrow> fault + world" where
  "check_exit_status E st w =
     (if \<not> verify_status st then Inr w
      else
        let token = token_of E (tokens w);
            data = ''echo '' @ token @ '' $?'' @ [NL]
        in case send_keys E st data (w\<lparr>tokens := tokens w + 1\<rparr>) of
             Inl f \<Rightarrow> Inl f
           | Inr w1 \<Rightarrow>
              (case wait_for_prompt E (sleep 500 w1) of
                 Inl f \<Rightarrow> Inl f
               | Inr w2 \<Rightarrow>
                  (let screen = fst (capture_pane E w2);
                       w3 = snd (capture_pane E w2);
                       status = findall_status token screen
                   in if length status = 0 then Inl (No_status token, w3)
                      else if length status > 1 then Inl (Double_status token, w3)
                      else if int_of_digits (status ! 0) \<noteq> 0
                           then Inl (Nonzero_status (int_of_digits (status ! 0)), w3)
                      else Inr w3)))"

subsection \<open>The class \<^verbatim>\<open>Remote\<close> and the window focus\<close>

definition focus_slides :: "world \<Rightarrow> world" where
  "focus_slides w = w\<lparr>trace := trace w @ [Workspace 3, Workspace 1]\<rparr>"

definition focus_terminal :: "world \<Rightarrow> world" where
  "focus_terminal w = w\<lparr>trace := trace w @ [Workspace 2, Workspace 1]\<rparr>"

definition focus_browser :: "world \<Rightarrow> world" where
  "focus_browser w = w\<lparr>trace := trace w @ [Workspace 4, Workspace 1]\<rparr>"

text \<open>\<^verbatim>\<open>Remote.goto\<close>.\<close>

definition goto :: "int \<Rightarrow> world \<Rightarrow> world" where
  "goto slide_number w =
     focus_slides (w\<lparr>slide_on_screen := slide_number, trace := trace w @ [Goto_slide slide_number]\<rparr>)"

text \<open>
  The \<^verbatim>\<open>while\<close> loop of \<^verbatim>\<open>Remote.catchup\<close>.  The operator can keep it running for ever (with
  keys it does not know, or by going backwards), so it runs on fuel: \<open>None\<close> when the fuel is
  used up before the loop ends.
\<close>

abbreviation ESC :: char where
  "ESC \<equiv> CHR 0x1B"

abbreviation CR :: char where
  "CR \<equiv> CHR 0x0D"

fun catchup_loop :: "nat \<Rightarrow> env \<Rightarrow> state \<Rightarrow> int \<Rightarrow> world \<Rightarrow> world option" where
  "catchup_loop 0 E st slide_number w =
     (if slide_on_screen w < slide_number then None else Some w)"
| "catchup_loop (Suc fuel) E st slide_number w =
     (if slide_on_screen w < slide_number then
        (let command = (if interactive st then fst (getchar E w) else ''z'');
             w1 = (if interactive st then snd (getchar E w) else w)
         in if command = ''z'' \<or> command = [CR] then
              catchup_loop fuel E st slide_number (goto slide_number w1)
            else if command = ''n'' \<or> command = [ESC, CHR ''['', CHR ''C''] \<or> command = '' '' then
              catchup_loop fuel E st slide_number (goto (slide_on_screen w1 + 1) w1)
            else if command = ''p'' \<or> command = [ESC, CHR ''['', CHR ''D''] then
              catchup_loop fuel E st slide_number (goto (slide_on_screen w1 - 1) w1)
            else if command = ''q'' then Some w1
            else catchup_loop fuel E st slide_number w1)
      else Some w)"

definition catchup :: "nat \<Rightarrow> env \<Rightarrow> state \<Rightarrow> int \<Rightarrow> world \<Rightarrow> world option" where
  "catchup fuel E st slide_number w =
     (if slide_on_screen w > slide_number then Some (goto slide_number w)
      else catchup_loop fuel E st slide_number w)"

subsection \<open>The actions\<close>

text \<open>
  An entry of \<^verbatim>\<open>actions\<close> is the tuple \<^verbatim>\<open>(slide, snippet, method, data)\<close>; of the slide the loop
  uses the number, and the snippet is only printed.  \<open>py_index\<close> is \<^verbatim>\<open>actions[i]\<close>: a negative
  index counts from the end, and an index outside the list raises \<^verbatim>\<open>IndexError\<close>.
\<close>

record action =
  act_slide :: int
  act_method :: string
  act_data :: string

definition py_index :: "'a list \<Rightarrow> int \<Rightarrow> 'a option" where
  "py_index xs i =
     (let n = int (length xs);
          j = (if i < 0 then i + n else i)
      in if 0 \<le> j \<and> j < n then Some (xs ! nat j) else None)"

subsection \<open>The methods\<close>

text \<open>\<^verbatim>\<open>re.sub("\n +", "\n", data)\<close>: the spaces that follow a newline are removed.\<close>

function strip_indent :: "string \<Rightarrow> string" where
  "strip_indent [] = []"
| "strip_indent (c # cs) =
     (if c = NL then c # strip_indent (dropWhile (\<lambda>x. x = CHR '' '') cs)
      else c # strip_indent cs)"
  by pat_completeness auto
termination
  by (relation "measure length") (auto simp: length_dropWhile_le less_Suc_eq_le)

text \<open>
  \<^verbatim>\<open>re.findall("^\[(.*)\]", screen, re.MULTILINE)\<close>: with \<^verbatim>\<open>MULTILINE\<close> the pattern is tried at
  the start of every line, and the dot does not cross a newline; the group is greedy, so it
  runs from the opening bracket to the last closing bracket of the line.
\<close>

fun split_on :: "char \<Rightarrow> string \<Rightarrow> string list" where
  "split_on c [] = [[]]"
| "split_on c (x # xs) =
     (if x = c then [] # split_on c xs
      else (case split_on c xs of [] \<Rightarrow> [[x]] | l # ls \<Rightarrow> (x # l) # ls))"

definition bracket_group :: "string \<Rightarrow> string option" where
  "bracket_group line =
     (case line of
        [] \<Rightarrow> None
      | c # rest \<Rightarrow>
         if c = CHR ''['' \<and> CHR '']'' \<in> set rest
         then Some (rev (tl (dropWhile (\<lambda>x. x \<noteq> CHR '']'') (rev rest))))
         else None)"

definition findall_bracket :: "string \<Rightarrow> string list" where
  "findall_bracket screen = List.map_filter bracket_group (split_on NL screen)"

text \<open>
  The chain \<^verbatim>\<open>if method == "keys": ... elif ... else: ...\<close> of the main loop (lines 352 to
  399), on the data of the action after \<^verbatim>\<open>strip()\<close> and the removal of the backticks.

  In the \<^verbatim>\<open>open\<close> branch the test \<^verbatim>\<open>if status.interactive:\<close> reads the name \<^verbatim>\<open>status\<close>, which
  the module never binds (the object is called \<^verbatim>\<open>state\<close>; \<^verbatim>\<open>status\<close> is a local variable of
  \<^verbatim>\<open>check_exit_status\<close>): evaluating it raises \<^verbatim>\<open>NameError\<close>, and the \<^verbatim>\<open>click.getchar()\<close> under
  it is never reached.
\<close>

definition dispatch :: "env \<Rightarrow> action list \<Rightarrow> state \<Rightarrow> string \<Rightarrow> string \<Rightarrow> world \<Rightarrow> fault + world" where
  "dispatch E actions st method data w =
     (if method = ''keys'' then send_keys E st data w
      else if method = ''bash'' then
        (case wait_for_prompt E w of
           Inl f \<Rightarrow> Inl f
         | Inr w1 \<Rightarrow>
            (case send_keys E st (strip_indent data @ [NL]) w1 of
               Inl f \<Rightarrow> Inl f
             | Inr w2 \<Rightarrow>
                (case py_index actions (next_step st + 1) of
                   None \<Rightarrow> Inl (IndexError, sleep 500 w2)
                 | Some nxt \<Rightarrow>
                    if act_method nxt = ''wait'' then
                      wait_for_string E (act_data nxt) TIMEOUT (sleep 500 w2)
                    else if act_method nxt = ''longwait'' then
                      wait_for_string E (act_data nxt) (10 * TIMEOUT) (sleep 500 w2)
                    else
                      (case wait_for_prompt E (sleep 500 w2) of
                         Inl f \<Rightarrow> Inl f
                       | Inr w3 \<Rightarrow> check_exit_status E st w3))))
      else if method = ''copypaste'' then
        (let screen = fst (capture_pane E w);
             w1 = snd (capture_pane E w)
         in case re_scan E data screen of
              None \<Rightarrow> Inl (RegexError, w1)
            | Some found \<Rightarrow>
               if length (map findall_item found) = 0 then Inl (No_regex_match data, w1)
               else
                 (case last (map findall_item found) of
                    Groups gs \<Rightarrow> Inl (AttributeError, w1)
                  | Text m \<Rightarrow>
                     (case send_keys E st (remove_char NL m @ [NL]) w1 of
                        Inl f \<Rightarrow> Inl f
                      | Inr w2 \<Rightarrow>
                         (case wait_for_prompt E w2 of
                            Inl f \<Rightarrow> Inl f
                          | Inr w3 \<Rightarrow> check_exit_status E st w3))))
      else if method = ''open'' then
        (let screen = fst (capture_pane E w);
             w1 = snd (capture_pane E w)
         in case findall_bracket screen of
              [] \<Rightarrow> Inl (IndexError, w1)
            | m # ms \<Rightarrow>
               (let ipaddr = last (m # ms);
                    url = replace CHR ''/'' ''node1'' (''/'' @ ipaddr) data;
                    w2 = focus_browser (w1\<lparr>trace := trace w1 @ [Xdg_open url]\<rparr>)
                in Inl (NameError ''status'', w2)))
      else Inr w)"

subsection \<open>The main loop\<close>

datatype control = Continue | Break

text \<open>
  The chain \<^verbatim>\<open>if command in ("n", ...): ... elif ... else: ...\<close> (lines 331 to 403) for the
  action \<open>a\<close> at the cursor: the state it leaves, and whether the loop goes on or was left by
  \<^verbatim>\<open>break\<close>.
\<close>

definition apply_command ::
  "env \<Rightarrow> action list \<Rightarrow> state \<Rightarrow> action \<Rightarrow> string \<Rightarrow> world \<Rightarrow> fault + control \<times> state \<times> world" where
  "apply_command E actions st a command w =
     (if command = ''n'' \<or> command = [ESC, CHR ''['', CHR ''C''] then
        Inr (Continue, st\<lparr>next_step := next_step st + 1\<rparr>, w)
      else if command = ''p'' \<or> command = [ESC, CHR ''['', CHR ''D''] then
        Inr (Continue, st\<lparr>next_step := next_step st - 1\<rparr>, w)
      else if command = ''s'' then
        Inr (Continue, st\<lparr>simulate_type := \<not> simulate_type st\<rparr>, w)
      else if command = ''v'' then
        Inr (Continue, st\<lparr>verify_status := \<not> verify_status st\<rparr>, w)
      else if command = ''g'' then
        (let n = fst (prompt_int E w);
             w1 = snd (prompt_int E w)
         in Inr (Continue, st\<lparr>next_step := n\<rparr>, if n = 0 then goto 1 w1 else w1))
      else if command = ''q'' then Inr (Break, st, w)
      else if command = ''c'' then
        Inr (Continue, st\<lparr>interactive := False\<rparr>, w)
      else if command = ''y'' \<or> command = [CR] \<or> command = '' '' then
        (case dispatch E actions st (act_method a)
                (remove_char CHR 0x60 (strip (act_data a))) (focus_terminal w) of
           Inl f \<Rightarrow> Inl f
         | Inr w1 \<Rightarrow> Inr (Continue, st\<lparr>next_step := next_step st + 1\<rparr>, w1))
      else Inr (Continue, st, w))"

text \<open>
  One pass of the body of \<^verbatim>\<open>while state.next_step < len(actions)\<close> (lines 297 to 403):
  \<^verbatim>\<open>state.save()\<close>, the action at the cursor, \<^verbatim>\<open>remote.catchup\<close>, the command (read from the
  keyboard in interactive mode, \<^verbatim>\<open>"y"\<close> otherwise), and the chain above.  The fuel is that of
  \<^verbatim>\<open>Remote.catchup\<close>.
\<close>

definition iteration ::
  "nat \<Rightarrow> env \<Rightarrow> action list \<Rightarrow> state \<Rightarrow> world \<Rightarrow> (fault + control \<times> state \<times> world) option" where
  "iteration fuel E actions st w =
     (case py_index actions (next_step st) of
        None \<Rightarrow> Some (Inl (IndexError, save st w))
      | Some a \<Rightarrow>
         (case catchup fuel E st (act_slide a) (save st w) of
            None \<Rightarrow> None
          | Some w1 \<Rightarrow>
             Some (apply_command E actions st a
                     (if interactive st then fst (getchar E w1) else ''y'')
                     (if interactive st then snd (getchar E w1) else w1))))"

text \<open>The loop, on fuel: \<open>None\<close> when the fuel is used up while the loop still runs.\<close>

fun run :: "nat \<Rightarrow> env \<Rightarrow> action list \<Rightarrow> state \<Rightarrow> world \<Rightarrow> (fault + state \<times> world) option" where
  "run 0 E actions st w =
     (if next_step st < int (length actions) then None else Some (Inr (st, w)))"
| "run (Suc fuel) E actions st w =
     (if next_step st < int (length actions) then
        (case iteration (Suc fuel) E actions st w of
           None \<Rightarrow> None
         | Some (Inl f) \<Rightarrow> Some (Inl f)
         | Some (Inr (Break, st', w')) \<Rightarrow> Some (Inr (st', w'))
         | Some (Inr (Continue, st', w')) \<Rightarrow> run fuel E actions st' w')
      else Some (Inr (st, w)))"

subsection \<open>Vocabulary of the properties\<close>

text \<open>A poll that does not find what it waits for: one capture, then \<^verbatim>\<open>time.sleep(1)\<close>.\<close>

definition idle_poll :: "env \<Rightarrow> world \<Rightarrow> world" where
  "idle_poll E w = sleep 1000 (snd (capture_pane E w))"

text \<open>The world after \<^verbatim>\<open>send_keys\<close> on a text that is not empty: typed key by key when
  \<^verbatim>\<open>simulate_type\<close> is on and the text does not start with a caret, sent in one piece
  otherwise.\<close>

definition sent :: "env \<Rightarrow> state \<Rightarrow> string \<Rightarrow> world \<Rightarrow> world" where
  "sent E st data w =
     (if simulate_type st \<and> hd data \<noteq> CHR ''^'' then type_keys E data w else tmux_send data w)"

text \<open>What a list of events sent to the terminal: the keys of each \<^verbatim>\<open>tmux send-keys\<close>, in
  order.  And a character as \<^verbatim>\<open>send_keys\<close> types it: a semicolon behind a backslash, any
  other character as it is.\<close>

fun sends :: "event list \<Rightarrow> string list" where
  "sends [] = []"
| "sends (Tmux_send ks # evs) = ks # sends evs"
| "sends (e # evs) = sends evs"

definition typed_key :: "char \<Rightarrow> string" where
  "typed_key c = (if c = CHR '';'' then [CHR 0x5C, CHR '';''] else [c])"

text \<open>The world in which a call ended, whether it returned or raised.\<close>

definition final :: "fault + world \<Rightarrow> world" where
  "final r = (case r of Inl f \<Rightarrow> snd f | Inr w \<Rightarrow> w)"

definition world_of :: "fault + control \<times> state \<times> world \<Rightarrow> world" where
  "world_of r = (case r of Inl f \<Rightarrow> snd f | Inr x \<Rightarrow> snd (snd x))"

text \<open>\<open>later w w'\<close>: the world \<open>w'\<close> comes after \<open>w\<close> with \<^verbatim>\<open>state.yaml\<close> untouched: the file is
  the same and the trace of \<open>w\<close> is the beginning of the trace of \<open>w'\<close>.\<close>

definition later :: "world \<Rightarrow> world \<Rightarrow> bool" where
  "later w w' = (state_yaml w' = state_yaml w \<and> take (length (trace w)) (trace w') = trace w)"

text \<open>
  \<open>sends_after_prompt evs\<close>: in the events \<open>evs\<close>, nothing is sent to the terminal before a
  capture that is at the prompt.  \<open>events_since w w'\<close> are the events that \<open>w'\<close> has after
  those of \<open>w\<close>.
\<close>

fun sends_after_prompt :: "event list \<Rightarrow> bool" where
  "sends_after_prompt [] = True"
| "sends_after_prompt (Tmux_capture s # evs) = (at_prompt s \<or> sends_after_prompt evs)"
| "sends_after_prompt (Tmux_send ks # evs) = False"
| "sends_after_prompt (e # evs) = sends_after_prompt evs"

definition events_since :: "world \<Rightarrow> world \<Rightarrow> event list" where
  "events_since w w' = drop (length (trace w)) (trace w')"

text \<open>
  The prompt sentinel in the words of the specification: after the trailing newlines are
  trimmed, the last line of the capture ends in a dollar, or ends in a hash that follows a
  whitespace character.
\<close>

definition last_line :: "string \<Rightarrow> string" where
  "last_line s = last (split_on NL s)"

definition spec_prompt_sentinel :: "string \<Rightarrow> bool" where
  "spec_prompt_sentinel output =
     (let line = last_line (rstrip_nl output)
      in endswith line ''$'' \<or>
         (2 \<le> length line \<and> last line = CHR ''#'' \<and> isspace (last (butlast line))))"

subsection \<open>Worlds and documents used as examples\<close>

text \<open>The world at the start of the process: nothing read, nothing done, no \<^verbatim>\<open>state.yaml\<close>,
  and \<^verbatim>\<open>Remote()\<close> with \<^verbatim>\<open>slide_on_screen = 0\<close>.\<close>

definition world0 :: world where
  "world0 = \<lparr>now = 0, captures = 0, keys_read = 0, numbers_read = 0, randoms = 0, tokens = 0,
              state_yaml = None, slide_on_screen = 0, trace = []\<rparr>"

text \<open>Two documents that \<^verbatim>\<open>State.load\<close> cannot read to the end.  The first has the three
  flags, all three different from the defaults, and no \<^verbatim>\<open>next_step\<close>.  The second is a file
  of \<^verbatim>\<open>State.save\<close> cut after its second line (\<^verbatim>\<open>yaml.dump\<close> writes the keys in alphabetical
  order: \<^verbatim>\<open>interactive\<close>, \<^verbatim>\<open>next_step\<close>, \<^verbatim>\<open>simulate_type\<close>, \<^verbatim>\<open>verify_status\<close>).\<close>

definition truncated_record :: pyval where
  "truncated_record = PDict [(''interactive'', PBool False),
                             (''verify_status'', PBool True),
                             (''simulate_type'', PBool False)]"

definition cut_short_record :: pyval where
  "cut_short_record = PDict [(''interactive'', PBool False), (''next_step'', PInt 3)]"

text \<open>A terminal that shows an ordinary shell prompt, user, host and directory before the
  dollar, and never changes.\<close>

definition stuck_shell :: env where
  "stuck_shell =
     \<lparr>screen_of = (\<lambda>k. ''Welcome'' @ [NL] @ ''docker@node1:~$''),
      key_of = (\<lambda>k. ''y''),
      number_of = (\<lambda>k. 0),
      jitter_of = (\<lambda>k. 0),
      token_of = (\<lambda>k. ''c0ffee''),
      re_scan = (\<lambda>pattern text. Some [])\<rparr>"

text \<open>A terminal that is back at the prompt at every capture, with the line that answers
  \<^verbatim>\<open>echo c0ffee $?\<close> after a command that succeeded; and a state that verifies the exit
  status and sends its keys in one piece.\<close>

definition status_shell :: env where
  "status_shell =
     \<lparr>screen_of = (\<lambda>k. ''$ echo c0ffee $?'' @ [NL] @ ''c0ffee 0'' @ [NL] @ ''$''),
      key_of = (\<lambda>k. ''y''),
      number_of = (\<lambda>k. 0),
      jitter_of = (\<lambda>k. 0),
      token_of = (\<lambda>k. ''c0ffee''),
      re_scan = (\<lambda>pattern text. Some [])\<rparr>"

definition verifying :: state where
  "verifying = \<lparr>interactive = False, verify_status = True, simulate_type = False, next_step = 0\<rparr>"

text \<open>A state that runs without the operator, verifies nothing and sends its keys in one
  piece.\<close>

definition quiet :: state where
  "quiet = \<lparr>interactive = False, verify_status = False, simulate_type = False, next_step = 0\<rparr>"

text \<open>Two lists of actions: one \<^verbatim>\<open>bash\<close> snippet alone, and the \<^verbatim>\<open>bash\<close> snippet followed by
  the \<^verbatim>\<open>wait\<close> that tells when it is done.\<close>

definition only_bash :: "action list" where
  "only_bash = [\<lparr>act_slide = 1, act_method = ''bash'', act_data = ''ls''\<rparr>]"

definition echo_then_wait :: "action list" where
  "echo_then_wait = [\<lparr>act_slide = 1, act_method = ''bash'', act_data = ''echo hi''\<rparr>,
                     \<lparr>act_slide = 1, act_method = ''wait'', act_data = ''hi''\<rparr>]"

text \<open>A terminal that shows \<^verbatim>\<open>ab\<close>, with the one match of the pattern \<^verbatim>\<open>(a)(b)\<close> in it: the text
  \<^verbatim>\<open>ab\<close> and its two groups.\<close>

definition two_group_shell :: env where
  "two_group_shell =
     \<lparr>screen_of = (\<lambda>k. ''ab''),
      key_of = (\<lambda>k. ''y''),
      number_of = (\<lambda>k. 0),
      jitter_of = (\<lambda>k. 0),
      token_of = (\<lambda>k. ''c0ffee''),
      re_scan = (\<lambda>pattern text.
         if pattern = ''(a)(b)'' \<and> text = ''ab'' then Some [(''ab'', [''a'', ''b''])] else Some [])\<rparr>"

text \<open>A terminal in the middle of a command at its first capture, and back at the prompt
  from the second on; the pattern \<^verbatim>\<open>running\<close> matches the first screen once.\<close>

definition busy_shell :: env where
  "busy_shell =
     \<lparr>screen_of = (\<lambda>k. if k = 0 then ''$ make'' @ [NL] @ ''make: running''
                         else ''make: done'' @ [NL] @ ''$''),
      key_of = (\<lambda>k. ''y''),
      number_of = (\<lambda>k. 0),
      jitter_of = (\<lambda>k. 0),
      token_of = (\<lambda>k. ''c0ffee''),
      re_scan = (\<lambda>pattern text.
         if pattern = ''running'' \<and> py_in ''running'' text then Some [(''running'', [])]
         else Some [])\<rparr>"

text \<open>A terminal that shows the address of the node in brackets at the start of a line, at
  the prompt.\<close>

definition open_shell :: env where
  "open_shell =
     \<lparr>screen_of = (\<lambda>k. ''[10.0.0.4]'' @ [NL] @ ''$''),
      key_of = (\<lambda>k. ''y''),
      number_of = (\<lambda>k. 0),
      jitter_of = (\<lambda>k. 0),
      token_of = (\<lambda>k. ''c0ffee''),
      re_scan = (\<lambda>pattern text. Some [])\<rparr>"

text \<open>The pattern \<^verbatim>\<open>id: (\w+)\<close>, and a terminal at the prompt whose screen holds two matches
  of it, \<^verbatim>\<open>id: a1\<close> and \<^verbatim>\<open>id: b2\<close>, each with the text of its one group.\<close>

definition id_pattern :: string where
  "id_pattern = ''id: ('' @ [CHR 0x5C] @ ''w+)''"

definition id_shell :: env where
  "id_shell =
     \<lparr>screen_of = (\<lambda>k. ''id: a1'' @ [NL] @ ''id: b2'' @ [NL] @ ''$''),
      key_of = (\<lambda>k. ''y''),
      number_of = (\<lambda>k. 0),
      jitter_of = (\<lambda>k. 0),
      token_of = (\<lambda>k. ''c0ffee''),
      re_scan = (\<lambda>pattern text.
         if pattern = id_pattern \<and> text = ''id: a1'' @ [NL] @ ''id: b2'' @ [NL] @ ''$''
         then Some [(''id: a1'', [''a1'']), (''id: b2'', [''b2''])] else Some [])\<rparr>"

text \<open>Two operators.  Both zoom to the slide of the snippet with their first key.  Then the
  first one presses \<^verbatim>\<open>p\<close>, and the second one presses \<^verbatim>\<open>g\<close> and answers 1000 when asked for a
  snippet number.\<close>

definition retreating_operator :: env where
  "retreating_operator =
     \<lparr>screen_of = (\<lambda>k. ''Welcome'' @ [NL] @ ''$''),
      key_of = (\<lambda>k. if k = 0 then ''z'' else ''p''),
      number_of = (\<lambda>k. 0),
      jitter_of = (\<lambda>k. 0),
      token_of = (\<lambda>k. ''c0ffee''),
      re_scan = (\<lambda>pattern text. Some [])\<rparr>"

definition far_jump :: env where
  "far_jump =
     \<lparr>screen_of = (\<lambda>k. ''Welcome'' @ [NL] @ ''$''),
      key_of = (\<lambda>k. if k = 0 then ''z'' else ''g''),
      number_of = (\<lambda>k. 1000),
      jitter_of = (\<lambda>k. 0),
      token_of = (\<lambda>k. ''c0ffee''),
      re_scan = (\<lambda>pattern text. Some [])\<rparr>"

text \<open>A terminal that shows the same screen at every capture.\<close>

definition shell_showing :: "string \<Rightarrow> env" where
  "shell_showing screen =
     \<lparr>screen_of = (\<lambda>k. screen),
      key_of = (\<lambda>k. ''y''),
      number_of = (\<lambda>k. 0),
      jitter_of = (\<lambda>k. 0),
      token_of = (\<lambda>k. ''c0ffee''),
      re_scan = (\<lambda>pattern text. Some [])\<rparr>"

text \<open>Five screens at the prompt after \<^verbatim>\<open>echo c0ffee $?\<close>: the status 0; the status 3; no status
  line; two status lines apart from each other; two status lines one under the other.\<close>

definition screen_zero :: string where
  "screen_zero = ''$ echo c0ffee $?'' @ [NL] @ ''c0ffee 0'' @ [NL] @ ''$''"

definition screen_three :: string where
  "screen_three = ''$ echo c0ffee $?'' @ [NL] @ ''c0ffee 3'' @ [NL] @ ''$''"

definition screen_none :: string where
  "screen_none = ''$ echo c0ffee $?'' @ [NL] @ ''$''"

definition screen_apart :: string where
  "screen_apart = ''$ echo c0ffee $?'' @ [NL] @ ''c0ffee 0'' @ [NL] @ ''$ echo c0ffee $?'' @ [NL]
                    @ ''c0ffee 1'' @ [NL] @ ''$''"

definition screen_adjacent :: string where
  "screen_adjacent = ''$ echo c0ffee $?'' @ [NL] @ ''c0ffee 0'' @ [NL] @ ''c0ffee 1'' @ [NL] @ ''$''"

text \<open>A state that runs without the operator and types its keys one by one; a terminal that
  is busy at its first capture, at the prompt from the second to the fourth, and shows the
  output of \<^verbatim>\<open>echo hi\<close> from the fifth on; the random delays are 5, 15, 25, ... milliseconds.\<close>

definition typing :: state where
  "typing = \<lparr>interactive = False, verify_status = False, simulate_type = True, next_step = 0\<rparr>"

definition slow_echo_shell :: env where
  "slow_echo_shell =
     \<lparr>screen_of = (\<lambda>k. if k = 0 then ''booting''
                         else if k < 4 then ''Welcome'' @ [NL] @ ''$''
                         else ''Welcome'' @ [NL] @ ''$ echo hi'' @ [NL] @ ''hi''),
      key_of = (\<lambda>k. ''y''),
      number_of = (\<lambda>k. 0),
      jitter_of = (\<lambda>k. 10 * k + 5),
      token_of = (\<lambda>k. ''c0ffee''),
      re_scan = (\<lambda>pattern text. Some [])\<rparr>"

text \<open>An operator at a terminal at the prompt: the first key zooms to the slide, the second
  is \<^verbatim>\<open>p\<close>, and every later one is \<^verbatim>\<open>y\<close>.\<close>

definition back_and_run :: env where
  "back_and_run =
     \<lparr>screen_of = (\<lambda>k. ''Welcome'' @ [NL] @ ''$''),
      key_of = (\<lambda>k. if k = 0 then ''z'' else if k = 1 then ''p'' else ''y''),
      number_of = (\<lambda>k. 0),
      jitter_of = (\<lambda>k. 0),
      token_of = (\<lambda>k. ''c0ffee''),
      re_scan = (\<lambda>pattern text. Some [])\<rparr>"

text \<open>Two more operators, who zoom to the slide of the snippet with their first key.  Then the
  first one presses \<^verbatim>\<open>n\<close> at every question, and the second one presses \<^verbatim>\<open>q\<close>.\<close>

definition advancing_operator :: env where
  "advancing_operator =
     \<lparr>screen_of = (\<lambda>k. ''Welcome'' @ [NL] @ ''$''),
      key_of = (\<lambda>k. if k = 0 then ''z'' else ''n''),
      number_of = (\<lambda>k. 0),
      jitter_of = (\<lambda>k. 0),
      token_of = (\<lambda>k. ''c0ffee''),
      re_scan = (\<lambda>pattern text. Some [])\<rparr>"

definition quitting_operator :: env where
  "quitting_operator =
     \<lparr>screen_of = (\<lambda>k. ''Welcome'' @ [NL] @ ''$''),
      key_of = (\<lambda>k. if k = 0 then ''z'' else ''q''),
      number_of = (\<lambda>k. 0),
      jitter_of = (\<lambda>k. 0),
      token_of = (\<lambda>k. ''c0ffee''),
      re_scan = (\<lambda>pattern text. Some [])\<rparr>"

section \<open>The string functions against their meaning\<close>

lemma startswith_iff: "startswith s p \<longleftrightarrow> (\<exists>r. s = p @ r)"
  by (induction s p rule: startswith.induct) auto

lemma endswith_iff: "endswith s suf \<longleftrightarrow> (\<exists>pre. s = pre @ suf)"
proof
  assume "endswith s suf"
  then obtain r where "rev s = rev suf @ r"
    by (auto simp: endswith_def startswith_iff)
  then have "s = rev r @ suf"
    by (metis rev_append rev_rev_ident)
  then show "\<exists>pre. s = pre @ suf" ..
next
  assume "\<exists>pre. s = pre @ suf"
  then show "endswith s suf"
    by (auto simp: endswith_def startswith_iff)
qed

lemma py_in_iff: "py_in needle s \<longleftrightarrow> (\<exists>a b. s = a @ needle @ b)"
proof (induction s)
  case Nil
  then show ?case by auto
next
  case (Cons c cs)
  show ?case
  proof
    assume "py_in needle (c # cs)"
    then consider "startswith (c # cs) needle" | "py_in needle cs" by auto
    then show "\<exists>a b. c # cs = a @ needle @ b"
    proof cases
      case 1
      then obtain r where "c # cs = needle @ r" by (auto simp: startswith_iff)
      then have "c # cs = [] @ needle @ r" by simp
      then show ?thesis by blast
    next
      case 2
      with Cons obtain a b where "cs = a @ needle @ b" by blast
      then have "c # cs = (c # a) @ needle @ b" by simp
      then show ?thesis by blast
    qed
  next
    assume "\<exists>a b. c # cs = a @ needle @ b"
    then obtain a b where ab: "c # cs = a @ needle @ b" by blast
    show "py_in needle (c # cs)"
    proof (cases a)
      case Nil
      with ab have "startswith (c # cs) needle" by (auto simp: startswith_iff)
      then show ?thesis by simp
    next
      case (Cons x xs)
      with ab have "cs = xs @ needle @ b" by simp
      with Cons.IH have "py_in needle cs" by blast
      then show ?thesis by simp
    qed
  qed
qed

lemma rstrip_chars_decomp:
  "\<exists>k. s = rstrip_chars (\<lambda>c. c = x) s @ replicate k x"
proof -
  have "rev s = takeWhile (\<lambda>c. c = x) (rev s) @ dropWhile (\<lambda>c. c = x) (rev s)"
    by simp
  moreover have "takeWhile (\<lambda>c. c = x) (rev s) = replicate (length (takeWhile (\<lambda>c. c = x) (rev s))) x"
    by (metis (mono_tags, lifting) replicate_eqI set_takeWhileD)
  ultimately have "s = rev (dropWhile (\<lambda>c. c = x) (rev s)) @ replicate (length (takeWhile (\<lambda>c. c = x) (rev s))) x"
    by (metis rev_append rev_replicate rev_rev_ident)
  then show ?thesis unfolding rstrip_chars_def by blast
qed

lemma rstrip_chars_last:
  "rstrip_chars P s \<noteq> [] \<Longrightarrow> \<not> P (last (rstrip_chars P s))"
  unfolding rstrip_chars_def
  by (metis hd_dropWhile last_rev rev_is_Nil_conv)

section \<open>Properties of the persisted state\<close>

lemma load_dump: "load (Some (dump st)) s0 = Inr (st :: state)"
  by (simp add: load_def dump_def)

lemma startup_load_after_save:
  "startup_load (state_yaml (save st w)) = st\<lparr>interactive := True\<rparr>"
  by (simp add: startup_load_def save_def load_dump)

lemma startup_load_no_file: "startup_load None = State_init"
  by (simp add: startup_load_def load_def)

text \<open>
  C10.  Whatever the state (any cursor, so any cursor between 0 and the number of actions, and
  any three flags), \<^verbatim>\<open>State.load\<close> on the file that \<^verbatim>\<open>State.save\<close> wrote succeeds and gives
  every field of the state that was saved, whatever the object held before.
\<close>

theorem save_load_roundtrip: "load (state_yaml (save st w)) s0 = Inr st"
  by (simp add: save_def load_def dump_def)

text \<open>
  C9.  A load that fails half-way does not leave the defaults.  On a \<^verbatim>\<open>state.yaml\<close> with the
  three flags and no \<^verbatim>\<open>next_step\<close>, \<^verbatim>\<open>State.load\<close> assigns the three flags and then raises
  \<^verbatim>\<open>KeyError\<close>; the \<^verbatim>\<open>except\<close> branch logs "Using default values." and changes nothing, and the
  assignment \<^verbatim>\<open>state.interactive = True\<close> of the \<^verbatim>\<open>try\<close> block is skipped.  The run starts
  with the flags of the file, non-interactive, and only the cursor at its default.  On the
  file cut after its second line, \<^verbatim>\<open>interactive\<close> is assigned from the file before \<^verbatim>\<open>KeyError\<close>
  is raised on \<^verbatim>\<open>verify_status\<close>: the run starts non-interactive, at cursor 0.
\<close>

theorem startup_load_keeps_partial_fields:
  "load (Some truncated_record) State_init
     = Inl (KeyError ''next_step'',
            \<lparr>interactive = False, verify_status = True, simulate_type = False, next_step = 0\<rparr>)
   \<and> startup_load (Some truncated_record)
     = \<lparr>interactive = False, verify_status = True, simulate_type = False, next_step = 0\<rparr>
   \<and> startup_load (Some truncated_record) \<noteq> State_init
   \<and> startup_load (Some cut_short_record)
     = \<lparr>interactive = False, verify_status = False, simulate_type = True, next_step = 0\<rparr>
   \<and> startup_load (Some cut_short_record) \<noteq> State_init"
  by (simp add: startup_load_def load_def truncated_record_def cut_short_record_def
      State_init_def)

section \<open>Waiting for the prompt\<close>

lemma at_prompt_iff:
  "at_prompt out \<longleftrightarrow>
     (\<exists>pre. rstrip_nl out = pre @ [NL, CHR ''$''] \<or>
            rstrip_nl out = pre @ [NL, CHR ''/'', CHR '' '', CHR ''#''])"
  by (auto simp: at_prompt_def endswith_iff)

lemma idle_poll_fields [simp]:
  "now (idle_poll E w) = now w + 1000"
  "captures (idle_poll E w) = captures w + 1"
  by (simp_all add: idle_poll_def sleep_def capture_pane_def)

lemma idle_polls_fields:
  "now ((idle_poll E ^^ n) w) = now w + 1000 * n \<and> captures ((idle_poll E ^^ n) w) = captures w + n"
  by (induction n) simp_all

lemma poll_prompt_closed:
  "poll_prompt E (now w + 1000 * n) w =
     (if \<exists>k<n. at_prompt (screen_of E (captures w + k))
      then Inr (snd (capture_pane E
             ((idle_poll E ^^ (LEAST k. at_prompt (screen_of E (captures w + k)))) w)))
      else Inl (Timeout_prompt, (idle_poll E ^^ n) w))"
proof (induction n arbitrary: w)
  case 0
  show ?case by (subst poll_prompt.simps) simp
next
  case (Suc n)
  let ?P = "\<lambda>k. at_prompt (screen_of E (captures w + k))"
  show ?case
  proof (cases "?P 0")
    case True
    then have "\<exists>k<Suc n. ?P k" by blast
    moreover from True have "(LEAST k. ?P k) = 0" by (rule Least_eq_0)
    moreover from True have "poll_prompt E (now w + 1000 * Suc n) w = Inr (snd (capture_pane E w))"
      by (subst poll_prompt.simps) (simp add: capture_pane_def)
    ultimately show ?thesis by simp
  next
    case False
    then have step: "poll_prompt E (now w + 1000 * Suc n) w
        = poll_prompt E (now (idle_poll E w) + 1000 * n) (idle_poll E w)"
      by (subst poll_prompt.simps) (simp add: capture_pane_def idle_poll_def sleep_def add.assoc)
    have ih: "poll_prompt E (now (idle_poll E w) + 1000 * n) (idle_poll E w) =
        (if \<exists>k<n. ?P (Suc k)
         then Inr (snd (capture_pane E ((idle_poll E ^^ (LEAST k. ?P (Suc k))) (idle_poll E w))))
         else Inl (Timeout_prompt, (idle_poll E ^^ n) (idle_poll E w)))"
      using Suc.IH[of "idle_poll E w"] by simp
    have ex: "(\<exists>k<n. ?P (Suc k)) \<longleftrightarrow> (\<exists>k<Suc n. ?P k)"
      using False by (metis less_Suc_eq_0_disj)
    show ?thesis
    proof (cases "\<exists>k<Suc n. ?P k")
      case True
      then obtain k where "?P k" by blast
      then have "(LEAST k. ?P k) = Suc (LEAST k. ?P (Suc k))"
        using False by (rule Least_Suc)
      then have "(idle_poll E ^^ (LEAST k. ?P k)) w
          = (idle_poll E ^^ (LEAST k. ?P (Suc k))) (idle_poll E w)"
        by (simp only: funpow_Suc_right o_apply)
      with True ex show ?thesis
        unfolding step ih by (simp only: if_True)
    next
      case False
      with ex show ?thesis
        unfolding step ih by (simp only: if_False funpow_Suc_right o_apply)
    qed
  qed
qed

lemma wait_for_prompt_closed:
  "wait_for_prompt E w =
     (if \<exists>k<60. at_prompt (screen_of E (captures w + k))
      then Inr (snd (capture_pane E
             ((idle_poll E ^^ (LEAST k. at_prompt (screen_of E (captures w + k)))) w)))
      else Inl (Timeout_prompt, (idle_poll E ^^ 60) w))"
  using poll_prompt_closed[where E = E and w = w and n = 60] by (simp add: wait_for_prompt_def TIMEOUT_def)

text \<open>
  C7, as the code has it.  \<^verbatim>\<open>wait_for_prompt\<close> looks at up to 60 captures, one second apart.
  It returns at the first of them that is at the prompt, right after that capture; when none
  of the 60 is, it raises the timeout, 60 seconds and 60 captures after it started.  A
  capture is at the prompt when, without its trailing newlines, it ends with a newline and
  a dollar, or with a newline and the three characters slash, space, hash: its last line is
  the dollar alone, or slash, space, hash alone, and is not the first line of the capture.
\<close>

theorem wait_for_prompt_first_prompt_or_timeout:
  "wait_for_prompt E w =
     (if \<exists>k<60. at_prompt (screen_of E (captures w + k))
      then Inr (snd (capture_pane E
             ((idle_poll E ^^ (LEAST k. at_prompt (screen_of E (captures w + k)))) w)))
      else Inl (Timeout_prompt, (idle_poll E ^^ 60) w))
   \<and> now ((idle_poll E ^^ 60) w) = now w + 60000
   \<and> captures ((idle_poll E ^^ 60) w) = captures w + 60
   \<and> (at_prompt out \<longleftrightarrow>
        (\<exists>pre. rstrip_nl out = pre @ [NL, CHR ''$''] \<or>
               rstrip_nl out = pre @ [NL, CHR ''/'', CHR '' '', CHR ''#'']))"
proof -
  have "now ((idle_poll E ^^ 60) w) = now w + 60000"
    and "captures ((idle_poll E ^^ 60) w) = captures w + 60"
    using idle_polls_fields[where E = E and n = 60 and w = w] by simp_all
  then show ?thesis
    using wait_for_prompt_closed[where E = E and w = w] at_prompt_iff[where out = out]
    by blast
qed

text \<open>
  C7, as the specification words it, fails.  The terminal \<open>stuck_shell\<close> shows
  \<^verbatim>\<open>docker@node1:~$\<close> as its last line: a line that ends in a dollar.  \<^verbatim>\<open>wait_for_prompt\<close> does
  not return on it: the line is not the dollar alone, and after 60 polls the timeout is
  raised.
\<close>

theorem prompt_after_text_counterexample:
  "spec_prompt_sentinel (screen_of stuck_shell 0)
   \<and> \<not> at_prompt (screen_of stuck_shell 0)
   \<and> wait_for_prompt stuck_shell world0 = Inl (Timeout_prompt, (idle_poll stuck_shell ^^ 60) world0)"
proof -
  have no: "\<not> at_prompt (screen_of stuck_shell k)" for k
    by (simp add: stuck_shell_def at_prompt_def rstrip_nl_def rstrip_chars_def endswith_def)
  have "spec_prompt_sentinel (screen_of stuck_shell 0)"
    by (simp add: stuck_shell_def spec_prompt_sentinel_def last_line_def rstrip_nl_def
        rstrip_chars_def endswith_def)
  with no show ?thesis
    by (simp add: wait_for_prompt_closed)
qed

section \<open>The exit status\<close>

lemma status_match_Some:
  assumes "status_match token s = Some (d, r)"
  shows "s = NL # token @ '' '' @ d @ NL # r" and "d \<noteq> []" and "list_all is_digit d"
proof -
  let ?rest = "drop (length token + 2) s"
  from assms have sw: "startswith s (NL # token @ '' '')"
    and d: "d = takeWhile is_digit ?rest" and ne: "d \<noteq> []"
    and nl: "startswith (dropWhile is_digit ?rest) [NL]"
    and r: "r = tl (dropWhile is_digit ?rest)"
    by (auto simp: status_match_def Let_def split: if_splits)
  from sw obtain x where x: "s = (NL # token @ '' '') @ x"
    unfolding startswith_iff by blast
  then have rest: "?rest = x" by simp
  from nl r have "dropWhile is_digit ?rest = NL # r"
    by (auto simp: startswith_iff)
  with d have "?rest = d @ NL # r"
    by (metis takeWhile_dropWhile_id)
  with x rest show "s = NL # token @ '' '' @ d @ NL # r" by simp
  show "d \<noteq> []" by (rule ne)
  show "list_all is_digit d" unfolding d list_all_iff by (auto dest: set_takeWhileD)
qed

lemma status_match_complete:
  assumes "d \<noteq> []" "list_all is_digit d"
  shows "status_match token (NL # token @ '' '' @ d @ NL # r) = Some (d, r)"
proof -
  have nd: "\<not> is_digit NL" by (simp add: is_digit_def)
  have "drop (length token + 2) (NL # token @ '' '' @ d @ NL # r) = d @ NL # r"
    by simp
  moreover have "takeWhile is_digit (d @ NL # r) = d"
    using assms(2) nd by (simp add: takeWhile_append2 list_all_iff)
  moreover have "dropWhile is_digit (d @ NL # r) = NL # r"
    using assms(2) nd by (simp add: dropWhile_append2 list_all_iff)
  moreover have "startswith (NL # token @ '' '' @ d @ NL # r) (NL # token @ '' '')"
    unfolding startswith_iff by simp
  ultimately show ?thesis
    using assms(1) unfolding status_match_def Let_def by (simp del: drop_Suc_Cons)
qed

lemma findall_status_sound:
  "d \<in> set (findall_status token s) \<Longrightarrow>
     d \<noteq> [] \<and> list_all is_digit d \<and> py_in (NL # token @ '' '' @ d @ [NL]) s"
proof (induction token s rule: findall_status.induct)
  case (1 token)
  then show ?case by simp
next
  case (2 token c cs)
  show ?case
  proof (cases "status_match token (c # cs)")
    case None
    with 2 have "d \<noteq> [] \<and> list_all is_digit d \<and> py_in (NL # token @ '' '' @ d @ [NL]) cs"
      by simp
    then show ?thesis by simp
  next
    case (Some m)
    obtain d' r where m: "m = (d', r)" by (cases m)
    note sm = status_match_Some[OF Some[unfolded m]]
    from "2.prems" Some m consider "d = d'" | "d \<in> set (findall_status token r)" by auto
    then show ?thesis
    proof cases
      case 1
      have "c # cs = [] @ (NL # token @ '' '' @ d' @ [NL]) @ r" using sm(1) by simp
      then have "py_in (NL # token @ '' '' @ d' @ [NL]) (c # cs)"
        unfolding py_in_iff by blast
      with 1 sm show ?thesis by simp
    next
      case 2
      with "2.IH"(2)[OF Some m[symmetric]]
      have ih: "d \<noteq> [] \<and> list_all is_digit d \<and> py_in (NL # token @ '' '' @ d @ [NL]) r"
        by simp
      then obtain a b where "r = a @ (NL # token @ '' '' @ d @ [NL]) @ b"
        unfolding py_in_iff by blast
      then have "c # cs = ((NL # token @ '' '' @ d' @ [NL]) @ a) @ (NL # token @ '' '' @ d @ [NL]) @ b"
        using sm(1) by simp
      then have "py_in (NL # token @ '' '' @ d @ [NL]) (c # cs)"
        unfolding py_in_iff by blast
      with ih show ?thesis by simp
    qed
  qed
qed

lemma findall_status_complete:
  "py_in (NL # token @ '' '' @ d @ [NL]) s \<Longrightarrow> d \<noteq> [] \<Longrightarrow> list_all is_digit d \<Longrightarrow>
     findall_status token s \<noteq> []"
proof (induction token s rule: findall_status.induct)
  case (1 token)
  then show ?case by simp
next
  case (2 token c cs)
  show ?case
  proof (cases "status_match token (c # cs)")
    case (Some m)
    then show ?thesis by (cases m) simp
  next
    case None
    have "\<not> startswith (c # cs) (NL # token @ '' '' @ d @ [NL])"
    proof
      assume "startswith (c # cs) (NL # token @ '' '' @ d @ [NL])"
      then obtain r where "c # cs = NL # token @ '' '' @ d @ NL # r"
        unfolding startswith_iff by auto
      with status_match_complete[OF "2.prems"(2,3), of token r] None show False by simp
    qed
    with "2.prems"(1) have "py_in (NL # token @ '' '' @ d @ [NL]) cs"
      by (simp del: startswith.simps)
    with "2.IH"(1)[OF None] "2.prems"(2,3) have "findall_status token cs \<noteq> []" by simp
    with None show ?thesis by simp
  qed
qed

lemma send_keys_nonempty:
  "data \<noteq> [] \<Longrightarrow>
     send_keys E st data w =
       Inr (if simulate_type st \<and> hd data \<noteq> CHR ''^'' then type_keys E data w else tmux_send data w)"
  by (cases data) (simp_all add: send_keys_def)

lemma poll_prompt_hit:
  "now w < deadline \<Longrightarrow> at_prompt (screen_of E (captures w)) \<Longrightarrow>
     poll_prompt E deadline w = Inr (snd (capture_pane E w))"
  by (subst poll_prompt.simps) (simp add: capture_pane_def)

lemma wait_for_prompt_hit:
  "at_prompt (screen_of E (captures w)) \<Longrightarrow> wait_for_prompt E w = Inr (snd (capture_pane E w))"
  by (simp add: wait_for_prompt_def TIMEOUT_def poll_prompt_hit)

text \<open>
  The outcomes of \<^verbatim>\<open>check_exit_status\<close>.  It does nothing when \<^verbatim>\<open>verify_status\<close> is off.  When
  it is on, it takes a fresh token, sends \<^verbatim>\<open>echo <token> $?\<close> and a newline (the send cannot
  fail, the text is not empty), sleeps half a second and waits for the prompt; a timeout of
  that wait is the outcome.  Otherwise it captures the screen once and looks for the matches
  of newline, token, space, digits, newline: none is the error \<open>No_status\<close>, more than one is
  the error \<open>Double_status\<close>, and a single one with digits \<open>d\<close> is the error \<open>Nonzero_status\<close>
  with the number \<open>d\<close> reads as, unless that number is zero: then, and only then, the
  function returns.  The last two lines say what the matches are: every match is a non-empty
  run of digits that stands in the screen between newline, token, space and a newline, and
  there is a match as soon as the screen holds such a run.
\<close>

lemma check_exit_status_outcomes:
  "(\<not> verify_status st \<longrightarrow> check_exit_status E st w = Inr w) \<and>
   (verify_status st \<longrightarrow>
      (\<exists>w1. send_keys E st (''echo '' @ token_of E (tokens w) @ '' $?'' @ [NL])
               (w\<lparr>tokens := tokens w + 1\<rparr>) = Inr w1 \<and>
         (\<forall>f. wait_for_prompt E (sleep 500 w1) = Inl f \<longrightarrow> check_exit_status E st w = Inl f) \<and>
         (\<forall>w2. wait_for_prompt E (sleep 500 w1) = Inr w2 \<longrightarrow>
            (let found = findall_status (token_of E (tokens w)) (fst (capture_pane E w2));
                 w3 = snd (capture_pane E w2)
             in (found = [] \<longrightarrow>
                   check_exit_status E st w = Inl (No_status (token_of E (tokens w)), w3)) \<and>
                (1 < length found \<longrightarrow>
                   check_exit_status E st w = Inl (Double_status (token_of E (tokens w)), w3)) \<and>
                (\<forall>d. found = [d] \<longrightarrow>
                   check_exit_status E st w =
                     (if int_of_digits d = 0 then Inr w3
                      else Inl (Nonzero_status (int_of_digits d), w3)))))))
   \<and> (\<forall>d \<in> set (findall_status token screen).
         d \<noteq> [] \<and> list_all is_digit d \<and> py_in (NL # token @ '' '' @ d @ [NL]) screen)
   \<and> ((\<exists>d. d \<noteq> [] \<and> list_all is_digit d \<and> py_in (NL # token @ '' '' @ d @ [NL]) screen)
        \<longleftrightarrow> findall_status token screen \<noteq> [])"
proof (intro conjI)
  show "\<not> verify_status st \<longrightarrow> check_exit_status E st w = Inr w"
    by (simp add: check_exit_status_def)
next
  let ?data = "''echo '' @ token_of E (tokens w) @ '' $?'' @ [NL]"
  let ?w0 = "w\<lparr>tokens := tokens w + 1\<rparr>"
  let ?w1 = "if simulate_type st \<and> hd ?data \<noteq> CHR ''^'' then type_keys E ?data ?w0
             else tmux_send ?data ?w0"
  let ?rest = "\<lambda>w1. (\<forall>f. wait_for_prompt E (sleep 500 w1) = Inl f \<longrightarrow> check_exit_status E st w = Inl f) \<and>
         (\<forall>w2. wait_for_prompt E (sleep 500 w1) = Inr w2 \<longrightarrow>
            (let found = findall_status (token_of E (tokens w)) (fst (capture_pane E w2));
                 w3 = snd (capture_pane E w2)
             in (found = [] \<longrightarrow>
                   check_exit_status E st w = Inl (No_status (token_of E (tokens w)), w3)) \<and>
                (1 < length found \<longrightarrow>
                   check_exit_status E st w = Inl (Double_status (token_of E (tokens w)), w3)) \<and>
                (\<forall>d. found = [d] \<longrightarrow>
                   check_exit_status E st w =
                     (if int_of_digits d = 0 then Inr w3
                      else Inl (Nonzero_status (int_of_digits d), w3)))))"
  have sent: "send_keys E st ?data ?w0 = Inr ?w1"
    by (rule send_keys_nonempty) simp
  show "verify_status st \<longrightarrow> (\<exists>w1. send_keys E st ?data ?w0 = Inr w1 \<and> ?rest w1)"
  proof
    assume v: "verify_status st"
    have "?rest ?w1"
      using v sent by (auto simp: check_exit_status_def Let_def)
    with sent show "\<exists>w1. send_keys E st ?data ?w0 = Inr w1 \<and> ?rest w1"
      by blast
  qed
next
  show "\<forall>d \<in> set (findall_status token screen).
         d \<noteq> [] \<and> list_all is_digit d \<and> py_in (NL # token @ '' '' @ d @ [NL]) screen"
    using findall_status_sound by blast
next
  show "(\<exists>d. d \<noteq> [] \<and> list_all is_digit d \<and> py_in (NL # token @ '' '' @ d @ [NL]) screen)
        \<longleftrightarrow> findall_status token screen \<noteq> []"
  proof
    assume "\<exists>d. d \<noteq> [] \<and> list_all is_digit d \<and> py_in (NL # token @ '' '' @ d @ [NL]) screen"
    then show "findall_status token screen \<noteq> []"
      using findall_status_complete by blast
  next
    assume "findall_status token screen \<noteq> []"
    then obtain d where "d \<in> set (findall_status token screen)"
      by (cases "findall_status token screen") auto
    then show "\<exists>d. d \<noteq> [] \<and> list_all is_digit d \<and> py_in (NL # token @ '' '' @ d @ [NL]) screen"
      using findall_status_sound by blast
  qed
qed

lemma status_shell_found:
  "findall_status ''c0ffee'' (screen_of status_shell k) = [''0'']"
  by (simp add: status_shell_def status_match_def is_digit_def)

lemma status_shell_prompt: "at_prompt (screen_of status_shell k)"
  by (simp add: status_shell_def at_prompt_def rstrip_nl_def rstrip_chars_def endswith_def)

text \<open>On the terminal \<open>status_shell\<close>, whose screen answers \<^verbatim>\<open>c0ffee 0\<close>: the status is
  verified and the function returns after its two captures.\<close>

lemma check_exit_status_on_status_shell:
  "verify_status verifying \<and>
   check_exit_status status_shell verifying world0 =
     Inr (snd (capture_pane status_shell (snd (capture_pane status_shell
            (sleep 500 (tmux_send (''echo c0ffee $?'' @ [NL]) (world0\<lparr>tokens := 1\<rparr>)))))))"
proof -
  let ?w1 = "tmux_send (''echo c0ffee $?'' @ [NL]) (world0\<lparr>tokens := 1\<rparr>)"
  have v: "verify_status verifying" by (simp add: verifying_def)
  have tok: "token_of status_shell (tokens world0) = ''c0ffee''" by (simp add: status_shell_def)
  have s: "send_keys status_shell verifying (''echo '' @ ''c0ffee'' @ '' $?'' @ [NL])
             (world0\<lparr>tokens := tokens world0 + 1\<rparr>) = Inr ?w1"
    by (simp add: send_keys_def verifying_def world0_def)
  have p: "wait_for_prompt status_shell (sleep 500 ?w1) = Inr (snd (capture_pane status_shell (sleep 500 ?w1)))"
    by (rule wait_for_prompt_hit) (rule status_shell_prompt)
  have f: "findall_status ''c0ffee'' (fst (capture_pane status_shell w2)) = [''0'']" for w2
    by (simp add: capture_pane_def status_shell_found)
  from check_exit_status_outcomes[where E = status_shell and st = verifying and w = world0]
    v s p f tok
  show ?thesis
    by (auto simp: Let_def int_of_digits_def)
qed

lemma shell_showing_fields:
  "screen_of (shell_showing s) k = s" "token_of (shell_showing s) k = ''c0ffee''"
  by (simp_all add: shell_showing_def)

lemma status_screens_prompt:
  "at_prompt screen_zero" "at_prompt screen_three" "at_prompt screen_none"
  "at_prompt screen_apart" "at_prompt screen_adjacent"
  by (simp_all add: screen_zero_def screen_three_def screen_none_def screen_apart_def
      screen_adjacent_def at_prompt_def rstrip_nl_def rstrip_chars_def endswith_def)

lemma status_screens_found:
  "findall_status ''c0ffee'' screen_zero = [''0'']"
  "findall_status ''c0ffee'' screen_three = [''3'']"
  "findall_status ''c0ffee'' screen_none = []"
  "findall_status ''c0ffee'' screen_apart = [''0'', ''1'']"
  "findall_status ''c0ffee'' screen_adjacent = [''0'']"
  by (simp_all add: screen_zero_def screen_three_def screen_none_def screen_apart_def
      screen_adjacent_def status_match_def is_digit_def)

lemma check_exit_status_showing:
  assumes "at_prompt s"
  shows "check_exit_status (shell_showing s) verifying world0 =
     (let w3 = \<lparr>now = 500, captures = 2, keys_read = 0, numbers_read = 0, randoms = 0,
                tokens = 1, state_yaml = None, slide_on_screen = 0,
                trace = [Tmux_send (''echo c0ffee $?'' @ [NL]), Sleep 500, Tmux_capture s,
                         Tmux_capture s]\<rparr>;
          status = findall_status ''c0ffee'' s
      in if length status = 0 then Inl (No_status ''c0ffee'', w3)
         else if length status > 1 then Inl (Double_status ''c0ffee'', w3)
         else if int_of_digits (status ! 0) \<noteq> 0
              then Inl (Nonzero_status (int_of_digits (status ! 0)), w3)
         else Inr w3)"
proof -
  have p: "at_prompt (screen_of (shell_showing s) k)" for k
    using assms by (simp add: shell_showing_fields)
  show ?thesis
    by (simp add: check_exit_status_def verifying_def send_keys_def shell_showing_fields
        wait_for_prompt_hit[OF p] capture_pane_def sleep_def tmux_send_def world0_def Let_def)
qed

text \<open>
  C2: the code does not see two status lines that stand one under the other.  With
  \<^verbatim>\<open>verify_status\<close> off the function does nothing, whatever the state and the world.  With
  \<^verbatim>\<open>verify_status\<close> on and the token \<^verbatim>\<open>c0ffee\<close>, on five screens at the prompt.  One line
  \<^verbatim>\<open>c0ffee 0\<close>: the function returns.  One line \<^verbatim>\<open>c0ffee 3\<close>: the error names the code 3.  No
  status line: the error \<open>No_status\<close>.  Two status lines with another line between them: the
  error \<open>Double_status\<close>.  Two status lines one under the other, \<^verbatim>\<open>c0ffee 0\<close> and \<^verbatim>\<open>c0ffee 1\<close>:
  both occur in the screen between two newlines, but the match of the first consumes the
  newline that the second needs in front of it, \<^verbatim>\<open>re.findall\<close> yields the first alone, and
  the function returns as if the status were the single 0.
\<close>

theorem adjacent_status_lines_pass:
  "check_exit_status E (st\<lparr>verify_status := False\<rparr>) w = Inr w
   \<and> verify_status verifying
   \<and> check_exit_status (shell_showing screen_zero) verifying world0 =
       Inr \<lparr>now = 500, captures = 2, keys_read = 0, numbers_read = 0, randoms = 0,
            tokens = 1, state_yaml = None, slide_on_screen = 0,
            trace = [Tmux_send (''echo c0ffee $?'' @ [NL]), Sleep 500,
                     Tmux_capture screen_zero, Tmux_capture screen_zero]\<rparr>
   \<and> check_exit_status (shell_showing screen_three) verifying world0 =
       Inl (Nonzero_status 3,
          \<lparr>now = 500, captures = 2, keys_read = 0, numbers_read = 0, randoms = 0,
            tokens = 1, state_yaml = None, slide_on_screen = 0,
            trace = [Tmux_send (''echo c0ffee $?'' @ [NL]), Sleep 500,
                     Tmux_capture screen_three, Tmux_capture screen_three]\<rparr>)
   \<and> check_exit_status (shell_showing screen_none) verifying world0 =
       Inl (No_status ''c0ffee'',
          \<lparr>now = 500, captures = 2, keys_read = 0, numbers_read = 0, randoms = 0,
            tokens = 1, state_yaml = None, slide_on_screen = 0,
            trace = [Tmux_send (''echo c0ffee $?'' @ [NL]), Sleep 500,
                     Tmux_capture screen_none, Tmux_capture screen_none]\<rparr>)
   \<and> check_exit_status (shell_showing screen_apart) verifying world0 =
       Inl (Double_status ''c0ffee'',
          \<lparr>now = 500, captures = 2, keys_read = 0, numbers_read = 0, randoms = 0,
            tokens = 1, state_yaml = None, slide_on_screen = 0,
            trace = [Tmux_send (''echo c0ffee $?'' @ [NL]), Sleep 500,
                     Tmux_capture screen_apart, Tmux_capture screen_apart]\<rparr>)
   \<and> py_in (NL # ''c0ffee 0'' @ [NL]) screen_adjacent
   \<and> py_in (NL # ''c0ffee 1'' @ [NL]) screen_adjacent
   \<and> findall_status ''c0ffee'' screen_adjacent = [''0'']
   \<and> check_exit_status (shell_showing screen_adjacent) verifying world0 =
       Inr \<lparr>now = 500, captures = 2, keys_read = 0, numbers_read = 0, randoms = 0,
            tokens = 1, state_yaml = None, slide_on_screen = 0,
            trace = [Tmux_send (''echo c0ffee $?'' @ [NL]), Sleep 500,
                     Tmux_capture screen_adjacent, Tmux_capture screen_adjacent]\<rparr>"
proof -
  have v: "verify_status verifying" by (simp add: verifying_def)
  have a: "py_in (NL # ''c0ffee 0'' @ [NL]) screen_adjacent"
    "py_in (NL # ''c0ffee 1'' @ [NL]) screen_adjacent"
    by (simp_all add: screen_adjacent_def)
  have n: "int_of_digits ''0'' = 0" "int_of_digits ''3'' = 3"
    by (simp_all add: int_of_digits_def)
  note c = check_exit_status_showing[OF status_screens_prompt(1)]
    check_exit_status_showing[OF status_screens_prompt(2)]
    check_exit_status_showing[OF status_screens_prompt(3)]
    check_exit_status_showing[OF status_screens_prompt(4)]
    check_exit_status_showing[OF status_screens_prompt(5)]
  have off: "check_exit_status E (st\<lparr>verify_status := False\<rparr>) w = Inr w"
    by (simp add: check_exit_status_def)
  show ?thesis
    unfolding c status_screens_found Let_def
    using v a off by (simp add: n)
qed

section \<open>What a call leaves untouched\<close>

text \<open>No function but \<^verbatim>\<open>State.save\<close> writes \<^verbatim>\<open>state.yaml\<close>, and every function only adds to the
  trace: the world in which a call ends, returned or raised, is \<open>later\<close> than the one in
  which it started.\<close>

lemma later_iff:
  "later w w' \<longleftrightarrow> state_yaml w' = state_yaml w \<and> (\<exists>evs. trace w' = trace w @ evs)"
  unfolding later_def by (metis append_eq_conv_conj append_take_drop_id)

lemma later_refl [simp]: "later w w"
  by (simp add: later_def)

lemma later_trans: "later w w' \<Longrightarrow> later w' w'' \<Longrightarrow> later w w''"
  unfolding later_iff by auto

lemma later_prims [simp]:
  "later w v \<Longrightarrow> later w (sleep d v)"
  "later w v \<Longrightarrow> later w (random_sleep E v)"
  "later w v \<Longrightarrow> later w (tmux_send ks v)"
  "later w v \<Longrightarrow> later w (snd (capture_pane E v))"
  "later w v \<Longrightarrow> later w (snd (getchar E v))"
  "later w v \<Longrightarrow> later w (snd (prompt_int E v))"
  "later w v \<Longrightarrow> later w (focus_slides v)"
  "later w v \<Longrightarrow> later w (focus_terminal v)"
  "later w v \<Longrightarrow> later w (focus_browser v)"
  "later w v \<Longrightarrow> later w (goto n v)"
  "later w v \<Longrightarrow> later w (v\<lparr>tokens := k\<rparr>)"
  "later w v \<Longrightarrow> later w (v\<lparr>trace := trace v @ evs\<rparr>)"
  unfolding later_iff
  by (auto simp: sleep_def random_sleep_def tmux_send_def capture_pane_def
      getchar_def prompt_int_def focus_slides_def focus_terminal_def focus_browser_def
      goto_def Let_def)

lemma later_type_key [simp]: "later w v \<Longrightarrow> later w (type_key E c v)"
  by (simp add: type_key_def Let_def)

lemma later_type_keys [simp]: "later w v \<Longrightarrow> later w (type_keys E cs v)"
  by (induction cs arbitrary: v) simp_all

lemma later_send_keys [simp]: "later w v \<Longrightarrow> later w (final (send_keys E st data v))"
  by (simp add: send_keys_def final_def split: list.splits)

lemma later_poll_prompt [simp]: "later w v \<Longrightarrow> later w (final (poll_prompt E d v))"
proof (induction E d v rule: poll_prompt.induct)
  case (1 E d v)
  show ?case
  proof (cases "now v < d \<and> \<not> at_prompt (fst (capture_pane E v))")
    case True
    then have eq: "poll_prompt E d v = poll_prompt E d (sleep 1000 (snd (capture_pane E v)))"
      by (subst poll_prompt.simps) simp
    from True "1.prems" show ?thesis
      unfolding eq by (intro "1.IH") simp_all
  next
    case False
    with "1.prems" show ?thesis
      by (subst poll_prompt.simps) (auto simp: final_def)
  qed
qed

lemma later_poll_string [simp]: "later w v \<Longrightarrow> later w (final (poll_string E s d v))"
proof (induction E s d v rule: poll_string.induct)
  case (1 E s d v)
  show ?case
  proof (cases "now v < d \<and> \<not> py_in s (fst (capture_pane E v))")
    case True
    then have eq: "poll_string E s d v = poll_string E s d (sleep 1000 (snd (capture_pane E v)))"
      by (subst poll_string.simps) simp
    from True "1.prems" show ?thesis
      unfolding eq by (intro "1.IH") simp_all
  next
    case False
    with "1.prems" show ?thesis
      by (subst poll_string.simps) (auto simp: final_def)
  qed
qed

lemma later_wait_for_prompt [simp]: "later w v \<Longrightarrow> later w (final (wait_for_prompt E v))"
  by (simp add: wait_for_prompt_def)

lemma later_wait_for_string [simp]: "later w v \<Longrightarrow> later w (final (wait_for_string E s t v))"
  by (simp add: wait_for_string_def)

lemma later_then:
  assumes "later w (final r)" and "\<And>w'. r = Inr w' \<Longrightarrow> later w w' \<Longrightarrow> later w (final (k w'))"
  shows "later w (final (case r of Inl f \<Rightarrow> Inl f | Inr w' \<Rightarrow> k w'))"
proof (cases r)
  case (Inl f)
  with assms(1) show ?thesis by (simp add: final_def)
next
  case (Inr w')
  with assms show ?thesis by (simp add: final_def)
qed

lemma final_simps [simp]: "final (Inr w) = w" "final (Inl (e, w)) = w"
  by (simp_all add: final_def)

lemma later_check_exit_status [simp]:
  "later w v \<Longrightarrow> later w (final (check_exit_status E st v))"
  unfolding check_exit_status_def Let_def
  by (auto intro!: later_then)

lemma dispatch_keys: "dispatch E actions st ''keys'' data w = send_keys E st data w"
  by (simp add: dispatch_def)

lemma dispatch_bash:
  "dispatch E actions st ''bash'' data w =
     (case wait_for_prompt E w of
        Inl f \<Rightarrow> Inl f
      | Inr w1 \<Rightarrow>
         (case send_keys E st (strip_indent data @ [NL]) w1 of
            Inl f \<Rightarrow> Inl f
          | Inr w2 \<Rightarrow>
             (case py_index actions (next_step st + 1) of
                None \<Rightarrow> Inl (IndexError, sleep 500 w2)
              | Some nxt \<Rightarrow>
                 if act_method nxt = ''wait'' then
                   wait_for_string E (act_data nxt) TIMEOUT (sleep 500 w2)
                 else if act_method nxt = ''longwait'' then
                   wait_for_string E (act_data nxt) (10 * TIMEOUT) (sleep 500 w2)
                 else
                   (case wait_for_prompt E (sleep 500 w2) of
                      Inl f \<Rightarrow> Inl f
                    | Inr w3 \<Rightarrow> check_exit_status E st w3))))"
  by (simp add: dispatch_def)

lemma dispatch_copypaste:
  "dispatch E actions st ''copypaste'' data w =
     (case re_scan E data (fst (capture_pane E w)) of
        None \<Rightarrow> Inl (RegexError, snd (capture_pane E w))
      | Some found \<Rightarrow>
         if found = [] then Inl (No_regex_match data, snd (capture_pane E w))
         else
           (case last (map findall_item found) of
              Groups gs \<Rightarrow> Inl (AttributeError, snd (capture_pane E w))
            | Text m \<Rightarrow>
               (case send_keys E st (remove_char NL m @ [NL]) (snd (capture_pane E w)) of
                  Inl f \<Rightarrow> Inl f
                | Inr w2 \<Rightarrow>
                   (case wait_for_prompt E w2 of
                      Inl f \<Rightarrow> Inl f
                    | Inr w3 \<Rightarrow> check_exit_status E st w3))))"
  by (simp add: dispatch_def Let_def split: option.split)

lemma dispatch_open:
  "dispatch E actions st ''open'' data w =
     (case findall_bracket (fst (capture_pane E w)) of
        [] \<Rightarrow> Inl (IndexError, snd (capture_pane E w))
      | m # ms \<Rightarrow>
         Inl (NameError ''status'',
              focus_browser (snd (capture_pane E w)
                \<lparr>trace := trace (snd (capture_pane E w)) @
                   [Xdg_open (replace CHR ''/'' ''node1'' (''/'' @ last (m # ms)) data)]\<rparr>)))"
  by (simp add: dispatch_def Let_def split: list.split)

lemma dispatch_other:
  "m \<noteq> ''keys'' \<Longrightarrow> m \<noteq> ''bash'' \<Longrightarrow> m \<noteq> ''copypaste'' \<Longrightarrow> m \<noteq> ''open'' \<Longrightarrow>
     dispatch E actions st m data w = Inr w"
  by (simp add: dispatch_def)

lemma later_dispatch [simp]:
  "later w v \<Longrightarrow> later w (final (dispatch E actions st m data v))"
proof -
  assume l: "later w v"
  consider (keys) "m = ''keys''" | (bash) "m = ''bash''" | (copypaste) "m = ''copypaste''"
    | (opn) "m = ''open''"
    | (other) "m \<noteq> ''keys''" "m \<noteq> ''bash''" "m \<noteq> ''copypaste''" "m \<noteq> ''open''"
    by blast
  then show ?thesis
  proof cases
    case keys
    with l show ?thesis by (simp add: dispatch_keys)
  next
    case bash
    show ?thesis
      unfolding bash dispatch_bash
      apply (rule later_then, simp add: l)
      apply (rule later_then, simp)
      apply (simp split: option.split)
      apply (intro conjI impI allI later_then)
         apply simp_all
      done
  next
    case copypaste
    show ?thesis
      unfolding copypaste dispatch_copypaste
      apply (simp add: l split: option.split re_match.split)
      apply (intro conjI impI allI later_then)
         apply (simp_all add: l)
      done
  next
    case opn
    with l show ?thesis by (simp add: dispatch_open split: list.split)
  next
    case other
    with l show ?thesis by (simp add: dispatch_other)
  qed
qed

lemma later_catchup_loop:
  "catchup_loop fuel E st n v = Some v' \<Longrightarrow> later w v \<Longrightarrow> later w v'"
proof (induction fuel arbitrary: v)
  case 0
  then show ?case by (simp split: if_splits)
next
  case (Suc fuel)
  show ?case
  proof (cases "slide_on_screen v < n")
    case False
    with Suc.prems show ?thesis by simp
  next
    case True
    let ?w1 = "if interactive st then snd (getchar E v) else v"
    have l1: "later w ?w1" using Suc.prems(2) by simp
    from True Suc.prems(1) consider
        (z) "catchup_loop fuel E st n (goto n ?w1) = Some v'"
      | (n) "catchup_loop fuel E st n (goto (slide_on_screen ?w1 + 1) ?w1) = Some v'"
      | (p) "catchup_loop fuel E st n (goto (slide_on_screen ?w1 - 1) ?w1) = Some v'"
      | (q) "v' = ?w1"
      | (other) "catchup_loop fuel E st n ?w1 = Some v'"
      by (simp add: Let_def split: if_splits)
    then show ?thesis
    proof cases
      case z
      then show ?thesis using l1 by (intro Suc.IH[OF z]) simp
    next
      case n
      then show ?thesis using l1 by (intro Suc.IH[OF n]) simp
    next
      case p
      then show ?thesis using l1 by (intro Suc.IH[OF p]) simp
    next
      case q
      with l1 show ?thesis by simp
    next
      case other
      then show ?thesis using l1 by (intro Suc.IH[OF other])
    qed
  qed
qed

lemma later_catchup:
  "catchup fuel E st n v = Some v' \<Longrightarrow> later w v \<Longrightarrow> later w v'"
  unfolding catchup_def by (auto split: if_splits dest: later_catchup_loop)

lemma world_of_simps [simp]:
  "world_of (Inr (c, s, w)) = w" "world_of (Inl (e, w)) = w"
  by (simp_all add: world_of_def)

lemma world_of_continue [simp]:
  "world_of (case r of Inl f \<Rightarrow> Inl f | Inr w1 \<Rightarrow> Inr (c, s, w1)) = final r"
  by (simp add: world_of_def final_def split: sum.split)

lemma later_apply_command [simp]:
  "later w v \<Longrightarrow> later w (world_of (apply_command E actions st a command v))"
  by (simp add: apply_command_def Let_def)

lemma later_iteration:
  assumes "iteration fuel E actions st w = Some r"
  shows "later (save st w) (world_of r)"
proof (cases "py_index actions (next_step st)")
  case None
  with assms show ?thesis by (auto simp: iteration_def)
next
  case (Some a)
  with assms obtain w1 where c: "catchup fuel E st (act_slide a) (save st w) = Some w1"
    and r: "r = apply_command E actions st a
                  (if interactive st then fst (getchar E w1) else ''y'')
                  (if interactive st then snd (getchar E w1) else w1)"
    by (auto simp: iteration_def split: option.splits)
  from c have "later (save st w) w1" by (rule later_catchup) simp
  then show ?thesis unfolding r by simp
qed

section \<open>The state is saved before the action runs\<close>

lemma catchup_loop_done:
  "\<not> slide_on_screen v < n \<Longrightarrow> catchup_loop fuel E st n v = Some v"
  by (cases fuel) simp_all

lemma slide_on_screen_goto [simp]: "slide_on_screen (goto n w) = n"
  by (simp add: goto_def focus_slides_def)

lemma catchup_quiet:
  "\<not> interactive st \<Longrightarrow>
     catchup (Suc fuel) E st n w = Some (if slide_on_screen w = n then w else goto n w)"
  by (simp add: catchup_def catchup_loop_done)

lemma py_index_in_range:
  "0 \<le> i \<Longrightarrow> i < int (length xs) \<Longrightarrow> py_index xs i = Some (xs ! nat i)"
  by (simp add: py_index_def)

lemma py_index_at_length [simp]: "py_index xs (int (length xs)) = None"
  by (simp add: py_index_def)

text \<open>
  C8.  Every pass of the loop that ends, by returning or by raising, ends with \<^verbatim>\<open>state.yaml\<close>
  holding the state the pass started with, all four fields: writing it is the first thing
  the pass does (the first event it adds to the trace), and nothing after it writes the
  file.  The command of the pass, and with it the dispatch of the action, runs in a world
  where the file already holds that state, on the action that the saved cursor designates
  (the entry of the list at that position when the cursor is not negative).  So when the
  action raises, the file that the next start loads gives back the same cursor, and the same
  action is played again, in interactive mode.
\<close>

theorem state_saved_before_action_runs:
  assumes "iteration fuel E actions st w = Some r"
  shows "state_yaml (world_of r) = Some (dump st)
    \<and> (\<exists>evs. trace (world_of r) = trace w @ Save_state (dump st) # evs)
    \<and> load (state_yaml (world_of r)) s0 = Inr st
    \<and> startup_load (state_yaml (world_of r)) = st\<lparr>interactive := True\<rparr>
    \<and> (py_index actions (next_step st) = None \<and> r = Inl (IndexError, save st w)
       \<or> (\<exists>a command w2.
            py_index actions (next_step st) = Some a
          \<and> (0 \<le> next_step st \<longrightarrow> a = actions ! nat (next_step st))
          \<and> state_yaml w2 = Some (dump st)
          \<and> r = apply_command E actions st a command w2))"
proof -
  from assms have l: "later (save st w) (world_of r)" by (rule later_iteration)
  then have y: "state_yaml (world_of r) = Some (dump st)"
    by (simp add: later_iff save_def)
  from l obtain evs where "trace (world_of r) = trace (save st w) @ evs"
    unfolding later_iff by blast
  then have t: "\<exists>evs. trace (world_of r) = trace w @ Save_state (dump st) # evs"
    by (simp add: save_def)
  have ld: "load (state_yaml (world_of r)) s0 = Inr st"
    unfolding y by (rule load_dump)
  have sl: "startup_load (state_yaml (world_of r)) = st\<lparr>interactive := True\<rparr>"
    unfolding y by (simp add: startup_load_def load_dump)
  have "py_index actions (next_step st) = None \<and> r = Inl (IndexError, save st w)
       \<or> (\<exists>a command w2.
            py_index actions (next_step st) = Some a
          \<and> (0 \<le> next_step st \<longrightarrow> a = actions ! nat (next_step st))
          \<and> state_yaml w2 = Some (dump st)
          \<and> r = apply_command E actions st a command w2)"
  proof (cases "py_index actions (next_step st)")
    case None
    with assms show ?thesis by (auto simp: iteration_def)
  next
    case (Some a)
    with assms obtain w1 where c: "catchup fuel E st (act_slide a) (save st w) = Some w1"
      and r: "r = apply_command E actions st a
                    (if interactive st then fst (getchar E w1) else ''y'')
                    (if interactive st then snd (getchar E w1) else w1)"
      by (auto simp: iteration_def split: option.splits)
    from c have "later (save st w) w1" by (rule later_catchup) simp
    then have "later (save st w) (if interactive st then snd (getchar E w1) else w1)"
      by simp
    then have "state_yaml (if interactive st then snd (getchar E w1) else w1) = Some (dump st)"
      by (simp add: later_iff save_def)
    moreover have "0 \<le> next_step st \<longrightarrow> a = actions ! nat (next_step st)"
      using Some by (auto simp: py_index_def Let_def split: if_splits)
    ultimately show ?thesis using Some r by blast
  qed
  with y t ld sl show ?thesis by blast
qed

text \<open>A pass on the list \<open>only_bash\<close>: the snippet is sent, the lookahead raises, and the
  file holds the state of the start of the pass.\<close>

lemma only_bash_pass:
  "iteration (Suc 0) status_shell only_bash verifying world0 =
     Some (Inl (IndexError,
       sleep 500 (tmux_send (''ls'' @ [NL])
         (snd (capture_pane status_shell (focus_terminal (goto 1 (save verifying world0))))))))"
proof -
  have i: "py_index only_bash (next_step verifying) = Some (hd only_bash)"
    by (simp add: py_index_def only_bash_def verifying_def)
  have n: "py_index only_bash (next_step verifying + 1) = None"
    by (simp add: py_index_def only_bash_def verifying_def)
  have c: "catchup (Suc 0) status_shell verifying (act_slide (hd only_bash)) (save verifying world0)
      = Some (goto 1 (save verifying world0))"
    by (simp add: catchup_quiet verifying_def only_bash_def save_def world0_def)
  have d: "remove_char CHR 0x60 (strip (act_data (hd only_bash))) = ''ls''"
    by (simp add: only_bash_def strip_def rstrip_chars_def isspace_def remove_char_def)
  have m: "act_method (hd only_bash) = ''bash''" by (simp add: only_bash_def)
  have ni: "\<not> interactive verifying" "\<not> simulate_type verifying" by (simp_all add: verifying_def)
  show ?thesis
    unfolding iteration_def i option.case c
    by (simp add: ni apply_command_def m d dispatch_bash
        wait_for_prompt_hit[OF status_shell_prompt] send_keys_def n)
qed

theorem state_saved_witness:
  "iteration (Suc 0) status_shell only_bash verifying world0 =
     Some (Inl (IndexError,
       sleep 500 (tmux_send (''ls'' @ [NL])
         (snd (capture_pane status_shell (focus_terminal (goto 1 (save verifying world0))))))))
   \<and> state_yaml (sleep 500 (tmux_send (''ls'' @ [NL])
         (snd (capture_pane status_shell (focus_terminal (goto 1 (save verifying world0)))))))
       = Some (dump verifying)
   \<and> startup_load (state_yaml (sleep 500 (tmux_send (''ls'' @ [NL])
         (snd (capture_pane status_shell (focus_terminal (goto 1 (save verifying world0))))))))
       = verifying\<lparr>interactive := True\<rparr>"
proof -
  note t = state_saved_before_action_runs[OF only_bash_pass, unfolded world_of_simps]
  from t only_bash_pass show ?thesis by blast
qed

section \<open>The \<^verbatim>\<open>bash\<close> method\<close>

lemma strip_indent_first: "\<not> startswith s [c] \<Longrightarrow> \<not> startswith (strip_indent s) [c]"
  by (cases s) auto

lemma dropWhile_space_first: "\<not> startswith (dropWhile (\<lambda>x. x = CHR '' '') cs) '' ''"
  by (induction cs) simp_all

lemma strip_indent_no_indent: "\<not> py_in [NL, CHR '' ''] (strip_indent s)"
proof (induction s rule: strip_indent.induct)
  case 1
  show ?case by simp
next
  case (2 c cs)
  show ?case
  proof (cases "c = NL")
    case False
    with 2 show ?thesis by simp
  next
    case True
    have "\<not> startswith (strip_indent (dropWhile (\<lambda>x. x = CHR '' '') cs)) '' ''"
      by (rule strip_indent_first) (rule dropWhile_space_first)
    with True 2 show ?thesis by simp
  qed
qed

lemma strip_indent_only_spaces:
  "filter (\<lambda>c. c \<noteq> CHR '' '') (strip_indent s) = filter (\<lambda>c. c \<noteq> CHR '' '') s"
proof (induction s rule: strip_indent.induct)
  case 1
  show ?case by simp
next
  case (2 c cs)
  have "filter (\<lambda>c. c \<noteq> CHR '' '') (dropWhile (\<lambda>x. x = CHR '' '') cs)
      = filter (\<lambda>c. c \<noteq> CHR '' '') cs"
    by (induction cs) simp_all
  with 2 show ?case by simp
qed

lemma same_slide_prims [simp]:
  "slide_on_screen (sleep d v) = slide_on_screen v"
  "slide_on_screen (random_sleep E v) = slide_on_screen v"
  "slide_on_screen (tmux_send ks v) = slide_on_screen v"
  "slide_on_screen (snd (capture_pane E v)) = slide_on_screen v"
  "slide_on_screen (snd (getchar E v)) = slide_on_screen v"
  "slide_on_screen (snd (prompt_int E v)) = slide_on_screen v"
  "slide_on_screen (focus_slides v) = slide_on_screen v"
  "slide_on_screen (focus_terminal v) = slide_on_screen v"
  "slide_on_screen (focus_browser v) = slide_on_screen v"
  "slide_on_screen (save st v) = slide_on_screen v"
  by (simp_all add: sleep_def random_sleep_def tmux_send_def capture_pane_def
      getchar_def prompt_int_def focus_slides_def focus_terminal_def focus_browser_def
      save_def Let_def)

lemma same_slide_type_keys [simp]: "slide_on_screen (type_keys E cs v) = slide_on_screen v"
  by (induction cs arbitrary: v) (simp_all add: type_key_def Let_def)

lemma same_slide_send_keys [simp]:
  "slide_on_screen (final (send_keys E st data v)) = slide_on_screen v"
  by (simp add: send_keys_def split: list.splits)

lemma same_slide_poll_string [simp]:
  "slide_on_screen (final (poll_string E s d v)) = slide_on_screen v"
proof (induction E s d v rule: poll_string.induct)
  case (1 E s d v)
  show ?case
  proof (cases "now v < d \<and> \<not> py_in s (fst (capture_pane E v))")
    case True
    then have eq: "poll_string E s d v = poll_string E s d (sleep 1000 (snd (capture_pane E v)))"
      by (subst poll_string.simps) simp
    from True have "slide_on_screen (final (poll_string E s d (sleep 1000 (snd (capture_pane E v)))))
        = slide_on_screen (sleep 1000 (snd (capture_pane E v)))"
      by (intro "1.IH") simp_all
    then show ?thesis unfolding eq by simp
  next
    case False
    then show ?thesis
      by (subst poll_string.simps) auto
  qed
qed

lemma same_slide_poll_prompt [simp]:
  "slide_on_screen (final (poll_prompt E d v)) = slide_on_screen v"
proof (induction E d v rule: poll_prompt.induct)
  case (1 E d v)
  show ?case
  proof (cases "now v < d \<and> \<not> at_prompt (fst (capture_pane E v))")
    case True
    then have eq: "poll_prompt E d v = poll_prompt E d (sleep 1000 (snd (capture_pane E v)))"
      by (subst poll_prompt.simps) simp
    from True have "slide_on_screen (final (poll_prompt E d (sleep 1000 (snd (capture_pane E v)))))
        = slide_on_screen (sleep 1000 (snd (capture_pane E v)))"
      by (intro "1.IH") simp_all
    then show ?thesis unfolding eq by simp
  next
    case False
    then show ?thesis
      by (subst poll_prompt.simps) auto
  qed
qed

lemma same_slide_waits [simp]:
  "slide_on_screen (final (wait_for_prompt E v)) = slide_on_screen v"
  "slide_on_screen (final (wait_for_string E s t v)) = slide_on_screen v"
  by (simp_all add: wait_for_prompt_def wait_for_string_def)

lemma same_slide_Inr:
  "wait_for_prompt E v = Inr v' \<Longrightarrow> slide_on_screen v' = slide_on_screen v"
  "wait_for_string E s t v = Inr v' \<Longrightarrow> slide_on_screen v' = slide_on_screen v"
  "send_keys E st data v = Inr v' \<Longrightarrow> slide_on_screen v' = slide_on_screen v"
  using same_slide_waits(1)[of E v] same_slide_waits(2)[of E s t v]
    same_slide_send_keys[of E st data v]
  by simp_all

lemma send_keys_sent: "data \<noteq> [] \<Longrightarrow> send_keys E st data w = Inr (sent E st data w)"
  by (simp add: send_keys_nonempty sent_def)

lemma later_sent [simp]: "later w v \<Longrightarrow> later w (sent E st data v)"
  by (simp add: sent_def)

lemma same_slide_sent [simp]: "slide_on_screen (sent E st data v) = slide_on_screen v"
  by (simp add: sent_def)

lemma poll_string_hit:
  "now w < deadline \<Longrightarrow> py_in s (screen_of E (captures w)) \<Longrightarrow>
     poll_string E s deadline w = Inr (snd (capture_pane E w))"
  by (subst poll_string.simps) (simp add: capture_pane_def)

lemma wait_for_string_hit:
  "0 < t \<Longrightarrow> py_in s (screen_of E (captures w)) \<Longrightarrow>
     wait_for_string E s t w = Inr (snd (capture_pane E w))"
  by (simp add: wait_for_string_def poll_string_hit)

lemma run_done: "\<not> next_step st < int (length actions) \<Longrightarrow> run fuel E actions st w = Some (Inr (st, w))"
  by (cases fuel) simp_all

lemma dispatch_bash_sent:
  "dispatch E actions st ''bash'' data w =
     (case wait_for_prompt E w of
        Inl f \<Rightarrow> Inl f
      | Inr w1 \<Rightarrow>
         (case py_index actions (next_step st + 1) of
            None \<Rightarrow> Inl (IndexError, sleep 500 (sent E st (strip_indent data @ [NL]) w1))
          | Some nxt \<Rightarrow>
             if act_method nxt = ''wait'' then
               wait_for_string E (act_data nxt) 60000
                 (sleep 500 (sent E st (strip_indent data @ [NL]) w1))
             else if act_method nxt = ''longwait'' then
               wait_for_string E (act_data nxt) 600000
                 (sleep 500 (sent E st (strip_indent data @ [NL]) w1))
             else
               (case wait_for_prompt E (sleep 500 (sent E st (strip_indent data @ [NL]) w1)) of
                  Inl f \<Rightarrow> Inl f
                | Inr w3 \<Rightarrow> check_exit_status E st w3)))"
  by (simp add: dispatch_bash send_keys_sent TIMEOUT_def split: sum.split option.split)

lemma echo_then_wait_run:
  assumes ni: "\<not> interactive st" and c0: "next_step st = 0"
    and p: "wait_for_prompt E
              (focus_terminal (if slide_on_screen w = 1 then save st w else goto 1 (save st w)))
            = Inr w1"
    and h: "wait_for_string E ''hi'' 60000 (sleep 500 (sent E st (''echo hi'' @ [NL]) w1)) = Inr w3"
  shows "run (Suc (Suc fuel)) E echo_then_wait st w =
           Some (Inr (st\<lparr>next_step := 2\<rparr>, focus_terminal (save (st\<lparr>next_step := 1\<rparr>) w3)))"
proof -
  let ?ready = "if slide_on_screen w = 1 then save st w else goto 1 (save st w)"
  let ?st1 = "st\<lparr>next_step := 1\<rparr>"
  let ?a0 = "\<lparr>act_slide = 1, act_method = ''bash'', act_data = ''echo hi''\<rparr>"
  let ?a1 = "\<lparr>act_slide = 1, act_method = ''wait'', act_data = ''hi''\<rparr>"
  have i0: "py_index echo_then_wait (next_step st) = Some ?a0"
    and i1: "py_index echo_then_wait (next_step st + 1) = Some ?a1"
    by (simp_all add: py_index_def echo_then_wait_def c0)
  have a0: "remove_char CHR 0x60 (strip ''echo hi'') = ''echo hi''"
    by (simp add: strip_def rstrip_chars_def isspace_def remove_char_def)
  have si: "strip_indent ''echo hi'' = ''echo hi''" by simp
  have c: "catchup (Suc (Suc fuel)) E st 1 (save st w) = Some ?ready"
    using ni by (simp add: catchup_quiet)
  have d: "dispatch E echo_then_wait st ''bash'' ''echo hi'' (focus_terminal ?ready) = Inr w3"
    unfolding dispatch_bash_sent p i1 si using h by simp
  have pass1: "iteration (Suc (Suc fuel)) E echo_then_wait st w = Some (Inr (Continue, ?st1, w3))"
    unfolding iteration_def i0 option.case
    using ni d c by (simp add: apply_command_def a0 c0)
  have s3: "slide_on_screen w3 = 1"
    using same_slide_Inr(2)[OF h] same_slide_Inr(1)[OF p] by simp
  have i: "py_index echo_then_wait (next_step ?st1) = Some ?a1"
    by (simp add: py_index_def echo_then_wait_def)
  have c': "catchup (Suc fuel) E ?st1 1 (save ?st1 w3) = Some (save ?st1 w3)"
    using ni s3 by (simp add: catchup_quiet)
  have d': "dispatch E echo_then_wait ?st1 ''wait'' x v = Inr v" for x v
    by (simp add: dispatch_other)
  have pass2: "iteration (Suc fuel) E echo_then_wait ?st1 w3 =
      Some (Inr (Continue, st\<lparr>next_step := 2\<rparr>, focus_terminal (save ?st1 w3)))"
    unfolding iteration_def i option.case
    using ni c' by (simp add: apply_command_def d')
  have len: "length echo_then_wait = 2" by (simp add: echo_then_wait_def)
  show ?thesis
    using pass1 pass2 by (simp add: len c0 run_done)
qed

lemma poll_string_closed:
  "poll_string E s (now w + 1000 * n) w =
     (if \<exists>k<n. py_in s (screen_of E (captures w + k))
      then Inr (snd (capture_pane E
             ((idle_poll E ^^ (LEAST k. py_in s (screen_of E (captures w + k)))) w)))
      else Inl (Timeout_string s, (idle_poll E ^^ n) w))"
proof (induction n arbitrary: w)
  case 0
  show ?case by (subst poll_string.simps) simp
next
  case (Suc n)
  let ?P = "\<lambda>k. py_in s (screen_of E (captures w + k))"
  show ?case
  proof (cases "?P 0")
    case True
    then have "\<exists>k<Suc n. ?P k" by blast
    moreover from True have "(LEAST k. ?P k) = 0" by (rule Least_eq_0)
    moreover from True have "poll_string E s (now w + 1000 * Suc n) w = Inr (snd (capture_pane E w))"
      by (subst poll_string.simps) (simp add: capture_pane_def)
    ultimately show ?thesis by simp
  next
    case False
    then have step: "poll_string E s (now w + 1000 * Suc n) w
        = poll_string E s (now (idle_poll E w) + 1000 * n) (idle_poll E w)"
      by (subst poll_string.simps) (simp add: capture_pane_def idle_poll_def sleep_def add.assoc)
    have ih: "poll_string E s (now (idle_poll E w) + 1000 * n) (idle_poll E w) =
        (if \<exists>k<n. ?P (Suc k)
         then Inr (snd (capture_pane E ((idle_poll E ^^ (LEAST k. ?P (Suc k))) (idle_poll E w))))
         else Inl (Timeout_string s, (idle_poll E ^^ n) (idle_poll E w)))"
      using Suc.IH[of "idle_poll E w"] by simp
    have ex: "(\<exists>k<n. ?P (Suc k)) \<longleftrightarrow> (\<exists>k<Suc n. ?P k)"
      using False by (metis less_Suc_eq_0_disj)
    show ?thesis
    proof (cases "\<exists>k<Suc n. ?P k")
      case True
      then obtain k where "?P k" by blast
      then have "(LEAST k. ?P k) = Suc (LEAST k. ?P (Suc k))"
        using False by (rule Least_Suc)
      then have "(idle_poll E ^^ (LEAST k. ?P k)) w
          = (idle_poll E ^^ (LEAST k. ?P (Suc k))) (idle_poll E w)"
        by (simp only: funpow_Suc_right o_apply)
      with True ex show ?thesis
        unfolding step ih by (simp only: if_True)
    next
      case False
      with ex show ?thesis
        unfolding step ih by (simp only: if_False funpow_Suc_right o_apply)
    qed
  qed
qed

lemma wait_for_string_closed:
  "wait_for_string E s (1000 * n) w =
     (if \<exists>k<n. py_in s (screen_of E (captures w + k))
      then Inr (snd (capture_pane E
             ((idle_poll E ^^ (LEAST k. py_in s (screen_of E (captures w + k)))) w)))
      else Inl (Timeout_string s, (idle_poll E ^^ n) w))"
  by (simp add: wait_for_string_def poll_string_closed)

lemma sends_append [simp]: "sends (a @ b) = sends a @ sends b"
  by (induction a rule: sends.induct) simp_all

lemma type_key_events:
  "\<exists>evs. trace (type_key E c w) = trace w @ evs
        \<and> sends evs = [typed_key c]
        \<and> captures (type_key E c w) = captures w"
  by (simp add: type_key_def typed_key_def Let_def sleep_def random_sleep_def tmux_send_def)

lemma type_keys_events:
  "\<exists>evs. trace (type_keys E cs w) = trace w @ evs \<and> sends evs = map typed_key cs
        \<and> captures (type_keys E cs w) = captures w"
proof (induction cs arbitrary: w)
  case Nil
  show ?case by simp
next
  case (Cons c cs)
  obtain e1 where e1: "trace (type_key E c w) = trace w @ e1"
    "sends e1 = [typed_key c]"
    "captures (type_key E c w) = captures w"
    using type_key_events by blast
  obtain e2 where e2: "trace (type_keys E cs (type_key E c w)) = trace (type_key E c w) @ e2"
    "sends e2 = map typed_key cs"
    "captures (type_keys E cs (type_key E c w)) = captures (type_key E c w)"
    using Cons.IH by blast
  have "trace (type_keys E (c # cs) w) = trace w @ (e1 @ e2)"
    using e1 e2 by simp
  moreover have "sends (e1 @ e2) = map typed_key (c # cs)"
    using e1 e2 by simp
  moreover have "captures (type_keys E (c # cs) w) = captures w"
    using e1 e2 by simp
  ultimately show ?case by blast
qed

lemma sent_keys:
  "sends (events_since v (sent E st d v)) =
     (if simulate_type st \<and> hd d \<noteq> CHR ''^'' then map typed_key d else [d])"
proof (cases "simulate_type st \<and> hd d \<noteq> CHR ''^''")
  case True
  obtain evs where "trace (type_keys E d v) = trace v @ evs" "sends evs = map typed_key d"
    using type_keys_events by blast
  with True show ?thesis by (simp add: sent_def events_since_def)
next
  case False
  then show ?thesis by (auto simp add: sent_def events_since_def tmux_send_def)
qed

lemma sent_captures: "captures (sent E st d v) = captures v"
  using type_keys_events[of E d v] by (auto simp: sent_def tmux_send_def)

lemma sent_whole: "\<not> (simulate_type st \<and> hd d \<noteq> CHR ''^'') \<Longrightarrow>
   events_since v (sent E st d v) = [Tmux_send d]"
  by (auto simp: sent_def events_since_def tmux_send_def)

lemma dropWhile_space_NL:
  "dropWhile (\<lambda>x. x = CHR '' '') (cs @ NL # r) = dropWhile (\<lambda>x. x = CHR '' '') cs @ NL # r"
  by (induction cs) simp_all

lemma strip_indent_same: "\<not> py_in [NL, CHR '' ''] s \<Longrightarrow> strip_indent s = s"
proof (induction s rule: strip_indent.induct)
  case 1
  show ?case by simp
next
  case (2 c cs)
  have tl: "\<not> py_in [NL, CHR '' ''] cs"
    using "2.prems" unfolding py_in_iff by (metis append_Cons)
  show ?case
  proof (cases "c = NL")
    case True
    have "\<not> startswith cs '' ''"
      using "2.prems" True unfolding py_in_iff startswith_iff
      by (metis append_Cons append_Nil)
    then have d: "dropWhile (\<lambda>x. x = CHR '' '') cs = cs"
      by (cases cs) (auto simp: startswith_iff)
    show ?thesis using True "2.IH"(1) tl by (simp add: d)
  next
    case False
    then show ?thesis using "2.IH"(2) tl by simp
  qed
qed

lemma strip_indent_space:
  "strip_indent (a @ NL # CHR '' '' # b) = strip_indent (a @ NL # b)"
proof (induction a rule: strip_indent.induct)
  case 1
  show ?case by simp
next
  case (2 c cs)
  show ?case
  proof (cases "c = NL")
    case True
    then show ?thesis using "2.IH"(1) by (simp add: dropWhile_space_NL)
  next
    case False
    then show ?thesis using "2.IH"(2) by simp
  qed
qed

lemma lookahead_fault:
  "py_index actions i = Some a \<Longrightarrow>
     (py_index actions (i + 1) = None \<longleftrightarrow> i = int (length actions) - 1)"
  by (auto simp: py_index_def Let_def split: if_splits)

lemma lookahead_wraps:
  "actions \<noteq> [] \<Longrightarrow> py_index actions (- 1) = Some (last actions) \<and>
     py_index actions (- 1 + 1) = Some (hd actions)"
  by (cases actions rule: rev_cases) (auto simp: py_index_def Let_def nth_append hd_conv_nth)


lemma poll_prompt_miss:
  "now w < deadline \<Longrightarrow> \<not> at_prompt (screen_of E (captures w)) \<Longrightarrow>
     poll_prompt E deadline w = poll_prompt E deadline (idle_poll E w)"
  by (subst poll_prompt.simps) (simp add: capture_pane_def idle_poll_def)

lemma poll_string_miss:
  "now w < deadline \<Longrightarrow> \<not> py_in s (screen_of E (captures w)) \<Longrightarrow>
     poll_string E s deadline w = poll_string E s deadline (idle_poll E w)"
  by (subst poll_string.simps) (simp add: capture_pane_def idle_poll_def)

text \<open>
  C1, as the code has it.  The \<^verbatim>\<open>bash\<close> method, whatever the action list, state, data and
  world.  It waits for the prompt first (up to 60 polls one second apart, as in C7), and a
  timeout of that wait is the outcome.  Then it sends the data with the spaces after each
  newline removed and a newline added, sleeps half a second, and looks at the action after
  the cursor: for a \<^verbatim>\<open>wait\<close> it waits for that action's data with the timeout of 60 seconds,
  for a \<^verbatim>\<open>longwait\<close> with 600 seconds, for any other method it waits for the prompt and then
  checks the exit status.

  What the parts do.  \<open>strip_indent\<close> leaves no newline followed by a space, removes nothing
  but spaces, leaves a text without indentation as it is, and gives the same result with
  one space less after a newline.  The send cannot fail and reads no capture; with
  \<^verbatim>\<open>simulate_type\<close> on and a text that does not start with a caret, the terminal receives the
  characters of the text one by one and in order, a semicolon behind a backslash; otherwise
  it receives the text in one piece, and nothing else happens.
  \<^verbatim>\<open>wait_for_string\<close> with 60 (600) seconds looks at up to 60 (600) captures one second apart,
  returns right after the first that contains the string, and raises the timeout after the
  last one when none does.

  On the list \<open>echo_then_wait\<close>, without the operator and with the cursor at 0: when the wait
  for the prompt returns and the wait for the string \<^verbatim>\<open>hi\<close> that follows the send returns,
  the loop ends, with enough fuel for its two passes, with the cursor at 2; no prompt is
  awaited after the send.

  The lookahead \<^verbatim>\<open>actions[state.next_step+1]\<close>: when the cursor designates an action, it
  raises \<^verbatim>\<open>IndexError\<close> exactly when the cursor is the length of the list minus one; the
  dispatch then always ends in an error, the timeout of the first wait or else \<^verbatim>\<open>IndexError\<close>,
  raised after the data was sent.  With the cursor at -1 the action at the cursor is the last
  one of the list too, and the lookahead reads the first action of the list.
\<close>

theorem bash_dispatch_completion:
  "dispatch E actions st ''bash'' data w =
     (case wait_for_prompt E w of
        Inl f \<Rightarrow> Inl f
      | Inr w1 \<Rightarrow>
         (case py_index actions (next_step st + 1) of
            None \<Rightarrow> Inl (IndexError, sleep 500 (sent E st (strip_indent data @ [NL]) w1))
          | Some nxt \<Rightarrow>
             if act_method nxt = ''wait'' then
               wait_for_string E (act_data nxt) 60000
                 (sleep 500 (sent E st (strip_indent data @ [NL]) w1))
             else if act_method nxt = ''longwait'' then
               wait_for_string E (act_data nxt) 600000
                 (sleep 500 (sent E st (strip_indent data @ [NL]) w1))
             else
               (case wait_for_prompt E (sleep 500 (sent E st (strip_indent data @ [NL]) w1)) of
                  Inl f \<Rightarrow> Inl f
                | Inr w3 \<Rightarrow> check_exit_status E st w3)))
   \<and> wait_for_prompt E v =
       (if \<exists>k<60. at_prompt (screen_of E (captures v + k))
        then Inr (snd (capture_pane E
               ((idle_poll E ^^ (LEAST k. at_prompt (screen_of E (captures v + k)))) v)))
        else Inl (Timeout_prompt, (idle_poll E ^^ 60) v))
   \<and> \<not> py_in [NL, CHR '' ''] (strip_indent data)
   \<and> filter (\<lambda>c. c \<noteq> CHR '' '') (strip_indent data) = filter (\<lambda>c. c \<noteq> CHR '' '') data
   \<and> (\<not> py_in [NL, CHR '' ''] data \<longrightarrow> strip_indent data = data)
   \<and> strip_indent (pre @ NL # CHR '' '' # post) = strip_indent (pre @ NL # post)
   \<and> send_keys E st (strip_indent data @ [NL]) v = Inr (sent E st (strip_indent data @ [NL]) v)
   \<and> later v (sent E st d v)
   \<and> captures (sent E st d v) = captures v
   \<and> sends (events_since v (sent E st d v)) =
       (if simulate_type st \<and> hd d \<noteq> CHR ''^'' then map typed_key d else [d])
   \<and> typed_key c = (if c = CHR '';'' then [CHR 0x5C, CHR '';''] else [c])
   \<and> (\<not> (simulate_type st \<and> hd d \<noteq> CHR ''^'') \<longrightarrow> events_since v (sent E st d v) = [Tmux_send d])
   \<and> events_since v (sleep 500 v) = [Sleep 500]
   \<and> now (sleep 500 v) = now v + 500
   \<and> wait_for_string E s 60000 v =
       (if \<exists>k<60. py_in s (screen_of E (captures v + k))
        then Inr (snd (capture_pane E
               ((idle_poll E ^^ (LEAST k. py_in s (screen_of E (captures v + k)))) v)))
        else Inl (Timeout_string s, (idle_poll E ^^ 60) v))
   \<and> wait_for_string E s 600000 v =
       (if \<exists>k<600. py_in s (screen_of E (captures v + k))
        then Inr (snd (capture_pane E
               ((idle_poll E ^^ (LEAST k. py_in s (screen_of E (captures v + k)))) v)))
        else Inl (Timeout_string s, (idle_poll E ^^ 600) v))
   \<and> now ((idle_poll E ^^ n) v) = now v + 1000 * n
   \<and> captures ((idle_poll E ^^ n) v) = captures v + n
   \<and> (py_in s out \<longleftrightarrow> (\<exists>a b. out = a @ s @ b))
   \<and> (\<forall>w1 w3.
        \<not> interactive st \<and> \<not> verify_status st \<and> next_step st = 0
        \<and> wait_for_prompt E
              (focus_terminal (if slide_on_screen w = 1 then save st w else goto 1 (save st w)))
            = Inr w1
        \<and> wait_for_string E ''hi'' 60000 (sleep 500 (sent E st (''echo hi'' @ [NL]) w1)) = Inr w3
        \<longrightarrow> run (Suc (Suc fuel)) E echo_then_wait st w =
              Some (Inr (st\<lparr>next_step := 2\<rparr>, focus_terminal (save (st\<lparr>next_step := 1\<rparr>) w3))))
   \<and> (py_index actions (next_step st) = Some cur \<longrightarrow>
        (py_index actions (next_step st + 1) = None \<longleftrightarrow> next_step st = int (length actions) - 1))
   \<and> (next_step st = int (length actions) - 1 \<longrightarrow>
        isl (dispatch E actions st ''bash'' data w)
        \<and> (\<forall>w1. wait_for_prompt E w = Inr w1 \<longrightarrow>
              dispatch E actions st ''bash'' data w =
                Inl (IndexError, sleep 500 (sent E st (strip_indent data @ [NL]) w1))))
   \<and> (actions \<noteq> [] \<and> next_step st = - 1 \<longrightarrow>
        py_index actions (next_step st) = Some (last actions)
        \<and> py_index actions (next_step st + 1) = Some (hd actions))"
proof (intro conjI allI impI)
  show "send_keys E st (strip_indent data @ [NL]) v = Inr (sent E st (strip_indent data @ [NL]) v)"
    by (rule send_keys_sent) simp
next
  fix w1 w3
  assume a: "\<not> interactive st \<and> \<not> verify_status st \<and> next_step st = 0
        \<and> wait_for_prompt E
              (focus_terminal (if slide_on_screen w = 1 then save st w else goto 1 (save st w)))
            = Inr w1
        \<and> wait_for_string E ''hi'' 60000 (sleep 500 (sent E st (''echo hi'' @ [NL]) w1)) = Inr w3"
  show "run (Suc (Suc fuel)) E echo_then_wait st w =
              Some (Inr (st\<lparr>next_step := 2\<rparr>, focus_terminal (save (st\<lparr>next_step := 1\<rparr>) w3)))"
    by (rule echo_then_wait_run) (use a in blast)+
next
  assume last: "next_step st = int (length actions) - 1"
  then have n: "py_index actions (next_step st + 1) = None" by simp
  show "isl (dispatch E actions st ''bash'' data w)"
    unfolding dispatch_bash_sent n by (simp split: sum.split)
  fix w1
  assume "wait_for_prompt E w = Inr w1"
  then show "dispatch E actions st ''bash'' data w =
                Inl (IndexError, sleep 500 (sent E st (strip_indent data @ [NL]) w1))"
    unfolding dispatch_bash_sent n by simp
next
  show "wait_for_string E s 60000 v =
       (if \<exists>k<60. py_in s (screen_of E (captures v + k))
        then Inr (snd (capture_pane E
               ((idle_poll E ^^ (LEAST k. py_in s (screen_of E (captures v + k)))) v)))
        else Inl (Timeout_string s, (idle_poll E ^^ 60) v))"
    using wait_for_string_closed[where n = 60 and E = E and s = s and w = v] by simp
next
  show "wait_for_string E s 600000 v =
       (if \<exists>k<600. py_in s (screen_of E (captures v + k))
        then Inr (snd (capture_pane E
               ((idle_poll E ^^ (LEAST k. py_in s (screen_of E (captures v + k)))) v)))
        else Inl (Timeout_string s, (idle_poll E ^^ 600) v))"
    using wait_for_string_closed[where n = 600 and E = E and s = s and w = v] by simp
next
  show "wait_for_prompt E v =
       (if \<exists>k<60. at_prompt (screen_of E (captures v + k))
        then Inr (snd (capture_pane E
               ((idle_poll E ^^ (LEAST k. at_prompt (screen_of E (captures v + k)))) v)))
        else Inl (Timeout_prompt, (idle_poll E ^^ 60) v))"
    by (rule wait_for_prompt_closed)
next
  show "py_in s out \<longleftrightarrow> (\<exists>a b. out = a @ s @ b)" by (rule py_in_iff)
next
  assume "\<not> py_in [NL, CHR '' ''] data"
  then show "strip_indent data = data" by (rule strip_indent_same)
next
  show "strip_indent (pre @ NL # CHR '' '' # post) = strip_indent (pre @ NL # post)"
    by (rule strip_indent_space)
next
  show "sends (events_since v (sent E st d v)) =
       (if simulate_type st \<and> hd d \<noteq> CHR ''^'' then map typed_key d else [d])"
    by (rule sent_keys)
next
  show "typed_key c = (if c = CHR '';'' then [CHR 0x5C, CHR '';''] else [c])"
    by (rule typed_key_def)
next
  assume "\<not> (simulate_type st \<and> hd d \<noteq> CHR ''^'')"
  then show "events_since v (sent E st d v) = [Tmux_send d]" by (rule sent_whole)
next
  show "captures (sent E st d v) = captures v" by (rule sent_captures)
next
  show "now ((idle_poll E ^^ n) v) = now v + 1000 * n"
    and "captures ((idle_poll E ^^ n) v) = captures v + n"
    using idle_polls_fields[where E = E and n = n and w = v] by simp_all
next
  assume "py_index actions (next_step st) = Some cur"
  then show "py_index actions (next_step st + 1) = None \<longleftrightarrow> next_step st = int (length actions) - 1"
    by (rule lookahead_fault)
next
  assume a: "actions \<noteq> [] \<and> next_step st = - 1"
  then show "py_index actions (next_step st) = Some (last actions)"
    using lookahead_wraps[of actions] by simp
  from a show "py_index actions (next_step st + 1) = Some (hd actions)"
    using lookahead_wraps[of actions] by simp
qed (simp_all add: dispatch_bash_sent strip_indent_no_indent strip_indent_only_spaces
      events_since_def sleep_def)

lemma slow_echo_shell_screens:
  "\<not> at_prompt (screen_of slow_echo_shell 0)"
  "at_prompt (screen_of slow_echo_shell (Suc 0))"
  "at_prompt (screen_of slow_echo_shell 2)" "\<not> py_in ''hi'' (screen_of slow_echo_shell 2)"
  "at_prompt (screen_of slow_echo_shell 3)" "\<not> py_in ''hi'' (screen_of slow_echo_shell 3)"
  "py_in ''hi'' (screen_of slow_echo_shell 4)"
  by (simp_all add: slow_echo_shell_def at_prompt_def rstrip_nl_def rstrip_chars_def endswith_def)

text \<open>The theorem on the terminal \<open>slow_echo_shell\<close> with the keys typed one by one.  The
  first wait polls twice.  After the send the terminal is at the prompt for two more
  captures, without the string \<^verbatim>\<open>hi\<close>: the wait for the string polls three times, and the run
  ends with the cursor at 2.  On a terminal that never shows the string, the two waits
  raise their timeouts after 60 and 600 seconds.  A semicolon is typed behind a backslash.\<close>

theorem bash_dispatch_witness:
  "\<not> interactive typing \<and> \<not> verify_status typing \<and> next_step typing = 0
   \<and> simulate_type typing
   \<and> at_prompt (screen_of slow_echo_shell 2) \<and> \<not> py_in ''hi'' (screen_of slow_echo_shell 2)
   \<and> run (Suc (Suc 0)) slow_echo_shell echo_then_wait typing world0 =
       Some (Inr (typing\<lparr>next_step := 2\<rparr>,
         \<lparr>now = 5820, captures = 5, keys_read = 0, numbers_read = 0, randoms = 8, tokens = 0,
          state_yaml = Some (dump (typing\<lparr>next_step := 1\<rparr>)),
          slide_on_screen = 1,
          trace =
            [Save_state (dump typing),
             Goto_slide 1, Workspace 3, Workspace 1, Workspace 2, Workspace 1,
             Tmux_capture ''booting'', Sleep 1000,
             Tmux_capture (''Welcome'' @ [NL] @ ''$''),
             Tmux_send ''e'', Sleep 5, Tmux_send ''c'', Sleep 15, Tmux_send ''h'', Sleep 25,
             Tmux_send ''o'', Sleep 35, Tmux_send '' '', Sleep 45, Tmux_send ''h'', Sleep 55,
             Tmux_send ''i'', Sleep 65, Sleep 1000, Tmux_send [NL], Sleep 75, Sleep 1000,
             Sleep 500,
             Tmux_capture (''Welcome'' @ [NL] @ ''$''), Sleep 1000,
             Tmux_capture (''Welcome'' @ [NL] @ ''$''), Sleep 1000,
             Tmux_capture (''Welcome'' @ [NL] @ ''$ echo hi'' @ [NL] @ ''hi''),
             Save_state (dump (typing\<lparr>next_step := 1\<rparr>)),
             Workspace 2, Workspace 1]\<rparr>))
   \<and> wait_for_string (shell_showing ''busy'') ''hi'' 60000 world0 =
       Inl (Timeout_string ''hi'', (idle_poll (shell_showing ''busy'') ^^ 60) world0)
   \<and> now ((idle_poll (shell_showing ''busy'') ^^ 60) world0) = 60000
   \<and> wait_for_string (shell_showing ''busy'') ''hi'' 600000 world0 =
       Inl (Timeout_string ''hi'', (idle_poll (shell_showing ''busy'') ^^ 600) world0)
   \<and> now ((idle_poll (shell_showing ''busy'') ^^ 600) world0) = 600000
   \<and> sends (events_since world0 (sent slow_echo_shell typing (''a;b'' @ [NL]) world0)) =
       [''a'', [CHR 0x5C, CHR '';''], ''b'', [NL]]"
proof -
  let ?E = "slow_echo_shell"
  let ?w0 = "focus_terminal (goto 1 (save typing world0))"
  let ?w1 = "snd (capture_pane ?E (idle_poll ?E ?w0))"
  let ?w2 = "sleep 500 (sent ?E typing (''echo hi'' @ [NL]) ?w1)"
  let ?w3 = "snd (capture_pane ?E (idle_poll ?E (idle_poll ?E ?w2)))"
  note main = bash_dispatch_completion[where E = ?E and st = typing and w = world0 and fuel = 0]
  have q: "\<not> interactive typing" "\<not> verify_status typing" "next_step typing = 0"
    "simulate_type typing"
    by (simp_all add: typing_def)
  have s0: "slide_on_screen world0 \<noteq> 1" by (simp add: world0_def)
  have f0: "captures ?w0 = 0" "now ?w0 = 0"
    by (simp_all add: focus_terminal_def goto_def focus_slides_def save_def world0_def)
  have p: "wait_for_prompt ?E ?w0 = Inr ?w1"
    unfolding wait_for_prompt_def TIMEOUT_def
    by (subst poll_prompt_miss) (simp_all add: f0 slow_echo_shell_screens poll_prompt_hit)
  have f1: "captures ?w1 = 2" "now ?w1 = 1000"
    by (simp_all add: capture_pane_def f0)
  have f2: "captures ?w2 = 2"
    using main f1 by (simp add: sleep_def)
  have h: "wait_for_string ?E ''hi'' 60000 ?w2 = Inr ?w3"
  proof -
    define u where "u = ?w2"
    have c: "captures u = 2" unfolding u_def by (rule f2)
    have c1: "captures (idle_poll ?E u) = 3" "captures (idle_poll ?E (idle_poll ?E u)) = 4"
      by (simp_all add: c)
    have "poll_string ?E ''hi'' (now u + 60000) u
        = poll_string ?E ''hi'' (now u + 60000) (idle_poll ?E u)"
    proof (rule poll_string_miss)
      show "now u < now u + 60000" by simp
      show "\<not> py_in ''hi'' (screen_of ?E (captures u))"
        unfolding c by (rule slow_echo_shell_screens)
    qed
    also have "\<dots> = poll_string ?E ''hi'' (now u + 60000) (idle_poll ?E (idle_poll ?E u))"
    proof (rule poll_string_miss)
      show "now (idle_poll ?E u) < now u + 60000" by simp
      show "\<not> py_in ''hi'' (screen_of ?E (captures (idle_poll ?E u)))"
        unfolding c1 by (rule slow_echo_shell_screens)
    qed
    also have "\<dots> = Inr (snd (capture_pane ?E (idle_poll ?E (idle_poll ?E u))))"
    proof (rule poll_string_hit)
      show "now (idle_poll ?E (idle_poll ?E u)) < now u + 60000" by simp
      show "py_in ''hi'' (screen_of ?E (captures (idle_poll ?E (idle_poll ?E u))))"
        unfolding c1 by (rule slow_echo_shell_screens)
    qed
    finally show ?thesis unfolding wait_for_string_def u_def .
  qed
  from main
  have "\<not> interactive typing \<and> \<not> verify_status typing \<and> next_step typing = 0
        \<and> wait_for_prompt ?E
              (focus_terminal (if slide_on_screen world0 = 1 then save typing world0
                               else goto 1 (save typing world0)))
            = Inr ?w1
        \<and> wait_for_string ?E ''hi'' 60000 ?w2 = Inr ?w3
        \<longrightarrow> run (Suc (Suc 0)) ?E echo_then_wait typing world0 =
              Some (Inr (typing\<lparr>next_step := 2\<rparr>,
                focus_terminal (save (typing\<lparr>next_step := 1\<rparr>) ?w3)))"
    by blast
  with q p h s0 have r: "run (Suc (Suc 0)) ?E echo_then_wait typing world0 =
              Some (Inr (typing\<lparr>next_step := 2\<rparr>,
                focus_terminal (save (typing\<lparr>next_step := 1\<rparr>) ?w3)))"
    by simp
  have w: "focus_terminal (save (typing\<lparr>next_step := 1\<rparr>) ?w3) =
         \<lparr>now = 5820, captures = 5, keys_read = 0, numbers_read = 0, randoms = 8, tokens = 0,
          state_yaml = Some (dump (typing\<lparr>next_step := 1\<rparr>)),
          slide_on_screen = 1,
          trace =
            [Save_state (dump typing),
             Goto_slide 1, Workspace 3, Workspace 1, Workspace 2, Workspace 1,
             Tmux_capture ''booting'', Sleep 1000,
             Tmux_capture (''Welcome'' @ [NL] @ ''$''),
             Tmux_send ''e'', Sleep 5, Tmux_send ''c'', Sleep 15, Tmux_send ''h'', Sleep 25,
             Tmux_send ''o'', Sleep 35, Tmux_send '' '', Sleep 45, Tmux_send ''h'', Sleep 55,
             Tmux_send ''i'', Sleep 65, Sleep 1000, Tmux_send [NL], Sleep 75, Sleep 1000,
             Sleep 500,
             Tmux_capture (''Welcome'' @ [NL] @ ''$''), Sleep 1000,
             Tmux_capture (''Welcome'' @ [NL] @ ''$''), Sleep 1000,
             Tmux_capture (''Welcome'' @ [NL] @ ''$ echo hi'' @ [NL] @ ''hi''),
             Save_state (dump (typing\<lparr>next_step := 1\<rparr>)),
             Workspace 2, Workspace 1]\<rparr>"
    by (simp add: focus_terminal_def save_def capture_pane_def idle_poll_def sleep_def sent_def
        q type_key_def random_sleep_def tmux_send_def goto_def focus_slides_def world0_def
        slow_echo_shell_def Let_def)
  have no: "\<not> py_in ''hi'' (screen_of (shell_showing ''busy'') k)" for k
    by (simp add: shell_showing_def)
  have t1: "wait_for_string (shell_showing ''busy'') ''hi'' 60000 world0 =
       Inl (Timeout_string ''hi'', (idle_poll (shell_showing ''busy'') ^^ 60) world0)"
    and t2: "wait_for_string (shell_showing ''busy'') ''hi'' 600000 world0 =
       Inl (Timeout_string ''hi'', (idle_poll (shell_showing ''busy'') ^^ 600) world0)"
    using bash_dispatch_completion[where E = "shell_showing ''busy''" and s = "''hi''" and v = world0]
      no by simp_all
  have n1: "now ((idle_poll (shell_showing ''busy'') ^^ 60) world0) = 60000"
    using bash_dispatch_completion[where E = "shell_showing ''busy''" and n = 60 and v = world0]
    by (simp add: world0_def)
  have n2: "now ((idle_poll (shell_showing ''busy'') ^^ 600) world0) = 600000"
    using bash_dispatch_completion[where E = "shell_showing ''busy''" and n = 600 and v = world0]
    by (simp add: world0_def)
  have k: "sends (events_since world0 (sent slow_echo_shell typing (''a;b'' @ [NL]) world0)) =
       [''a'', [CHR 0x5C, CHR '';''], ''b'', [NL]]"
    using bash_dispatch_completion[where E = ?E and st = typing and v = world0
        and d = "''a;b'' @ [NL]"] q
    by (simp add: typed_key_def)
  from q slow_echo_shell_screens r w t1 t2 n1 n2 k show ?thesis
    by simp
qed

lemma back_and_run_prompt: "at_prompt (screen_of back_and_run k)"
  by (simp add: back_and_run_def at_prompt_def rstrip_nl_def rstrip_chars_def endswith_def)

text \<open>
  C1, as the specification words it, fails in its last part.  On the list \<open>only_bash\<close>, whose
  last action is its only one, a \<^verbatim>\<open>bash\<close> snippet: the operator presses \<^verbatim>\<open>p\<close> at the cursor 0,
  which leaves the cursor at -1 (C4), and then \<^verbatim>\<open>y\<close>.  \<^verbatim>\<open>actions[-1]\<close> is the last action of the
  list, and the lookahead \<^verbatim>\<open>actions[0]\<close> is inside the list: the snippet is sent, the prompt
  is awaited, nothing is raised, and the cursor goes on to 0.
\<close>

theorem bash_last_action_wraps_counterexample:
  "length only_bash = 1 \<and> act_method (last only_bash) = ''bash''
   \<and> iteration (Suc (Suc 0)) back_and_run only_bash State_init world0 =
       Some (Inr (Continue, State_init\<lparr>next_step := - 1\<rparr>,
         \<lparr>now = 0, captures = 0, keys_read = 2, numbers_read = 0, randoms = 0, tokens = 0,
          state_yaml = Some (dump State_init), slide_on_screen = 1,
          trace = [Save_state (dump State_init), Getchar ''z'', Goto_slide 1, Workspace 3,
                   Workspace 1, Getchar ''p'']\<rparr>))
   \<and> py_index only_bash (- 1) = Some (last only_bash)
   \<and> py_index only_bash (- 1 + 1) = Some (hd only_bash)
   \<and> iteration (Suc 0) back_and_run only_bash (State_init\<lparr>next_step := - 1\<rparr>)
         \<lparr>now = 0, captures = 0, keys_read = 2, numbers_read = 0, randoms = 0, tokens = 0,
          state_yaml = Some (dump State_init), slide_on_screen = 1,
          trace = [Save_state (dump State_init), Getchar ''z'', Goto_slide 1, Workspace 3,
                   Workspace 1, Getchar ''p'']\<rparr> =
       Some (Inr (Continue, State_init\<lparr>next_step := 0\<rparr>,
         \<lparr>now = 2500, captures = 2, keys_read = 3, numbers_read = 0, randoms = 3, tokens = 0,
          state_yaml = Some (dump (State_init\<lparr>next_step := - 1\<rparr>)), slide_on_screen = 1,
          trace = [Save_state (dump State_init), Getchar ''z'', Goto_slide 1, Workspace 3,
                   Workspace 1, Getchar ''p'',
                   Save_state (dump (State_init\<lparr>next_step := - 1\<rparr>)), Getchar ''y'',
                   Workspace 2, Workspace 1,
                   Tmux_capture (''Welcome'' @ [NL] @ ''$''),
                   Tmux_send ''l'', Sleep 0, Tmux_send ''s'', Sleep 0,
                   Sleep 1000, Tmux_send [NL], Sleep 0, Sleep 1000, Sleep 500,
                   Tmux_capture (''Welcome'' @ [NL] @ ''$'')]\<rparr>))"
proof -
  let ?E = back_and_run
  let ?a = "\<lparr>act_slide = 1, act_method = ''bash'', act_data = ''ls''\<rparr>"
  let ?st = "State_init\<lparr>next_step := - 1\<rparr>"
  have keys: "key_of ?E 0 = ''z''" "key_of ?E (Suc 0) = ''p''" "key_of ?E 2 = ''y''"
    "jitter_of ?E k = 0" "screen_of ?E k = ''Welcome'' @ [NL] @ ''$''"
    for k
    by (simp_all add: back_and_run_def)
  have i0: "py_index only_bash 0 = Some ?a" and im: "py_index only_bash (- 1) = Some ?a"
    by (simp_all add: py_index_def only_bash_def)
  have l: "last only_bash = ?a" "hd only_bash = ?a" "length only_bash = 1"
    by (simp_all add: only_bash_def)
  have d: "remove_char CHR 0x60 (strip ''ls'') = ''ls''"
    by (simp add: strip_def rstrip_chars_def isspace_def remove_char_def)
  have st: "interactive State_init" "simulate_type State_init" "\<not> verify_status State_init"
    "next_step State_init = 0"
    by (simp_all add: State_init_def)
  have p1: "iteration (Suc (Suc 0)) ?E only_bash State_init world0 =
       Some (Inr (Continue, ?st,
         \<lparr>now = 0, captures = 0, keys_read = 2, numbers_read = 0, randoms = 0, tokens = 0,
          state_yaml = Some (dump State_init), slide_on_screen = 1,
          trace = [Save_state (dump State_init), Getchar ''z'', Goto_slide 1, Workspace 3,
                   Workspace 1, Getchar ''p'']\<rparr>))"
    unfolding iteration_def st i0 option.case
    by (simp add: catchup_def st getchar_def save_def world0_def keys goto_def focus_slides_def
        apply_command_def)
  have p2: "iteration (Suc 0) ?E only_bash ?st
         \<lparr>now = 0, captures = 0, keys_read = 2, numbers_read = 0, randoms = 0, tokens = 0,
          state_yaml = Some (dump State_init), slide_on_screen = 1,
          trace = [Save_state (dump State_init), Getchar ''z'', Goto_slide 1, Workspace 3,
                   Workspace 1, Getchar ''p'']\<rparr> =
       Some (Inr (Continue, State_init\<lparr>next_step := 0\<rparr>,
         \<lparr>now = 2500, captures = 2, keys_read = 3, numbers_read = 0, randoms = 3, tokens = 0,
          state_yaml = Some (dump ?st), slide_on_screen = 1,
          trace = [Save_state (dump State_init), Getchar ''z'', Goto_slide 1, Workspace 3,
                   Workspace 1, Getchar ''p'',
                   Save_state (dump ?st), Getchar ''y'',
                   Workspace 2, Workspace 1,
                   Tmux_capture (''Welcome'' @ [NL] @ ''$''),
                   Tmux_send ''l'', Sleep 0, Tmux_send ''s'', Sleep 0,
                   Sleep 1000, Tmux_send [NL], Sleep 0, Sleep 1000, Sleep 500,
                   Tmux_capture (''Welcome'' @ [NL] @ ''$'')]\<rparr>))"
    by (simp add: iteration_def im i0 catchup_def st getchar_def save_def keys
        apply_command_def d dispatch_bash wait_for_prompt_hit[OF back_and_run_prompt]
        send_keys_def type_key_def random_sleep_def tmux_send_def sleep_def Let_def
        focus_terminal_def capture_pane_def check_exit_status_def catchup_loop_done)
  from p1 p2 im i0 l show ?thesis by simp
qed

section \<open>The \<^verbatim>\<open>copypaste\<close> and \<^verbatim>\<open>open\<close> methods\<close>

lemma dispatch_copypaste_sent:
  "dispatch E actions st ''copypaste'' data w =
     (case re_scan E data (screen_of E (captures w)) of
        None \<Rightarrow> Inl (RegexError, snd (capture_pane E w))
      | Some found \<Rightarrow>
         if found = [] then Inl (No_regex_match data, snd (capture_pane E w))
         else
           (case findall_item (last found) of
              Groups gs \<Rightarrow> Inl (AttributeError, snd (capture_pane E w))
            | Text m \<Rightarrow>
               (case wait_for_prompt E
                       (sent E st (remove_char NL m @ [NL]) (snd (capture_pane E w))) of
                  Inl f \<Rightarrow> Inl f
                | Inr w3 \<Rightarrow> check_exit_status E st w3)))"
  by (simp add: dispatch_copypaste send_keys_sent last_map capture_pane_def
      split: option.split re_match.split)

text \<open>
  C3, as the code has it.  The \<^verbatim>\<open>copypaste\<close> method captures the screen once and takes the
  matches of the data in it.  When \<^verbatim>\<open>re\<close> rejects the pattern, or when there is no match, it
  raises, and nothing is sent.  Otherwise it takes the last item of the result of
  \<^verbatim>\<open>re.findall\<close>: the text of the last match for a pattern without a group, the text of its
  group for a pattern with one group.  It removes the newlines of that text, sends it with
  a newline added, waits for the prompt and checks the exit status.  For a pattern with two
  groups or more the item is a tuple: the method raises \<^verbatim>\<open>AttributeError\<close> and nothing is sent.
\<close>

theorem copypaste_dispatch_last_item:
  "dispatch E actions st ''copypaste'' data w =
     (case re_scan E data (screen_of E (captures w)) of
        None \<Rightarrow> Inl (RegexError, snd (capture_pane E w))
      | Some found \<Rightarrow>
         if found = [] then Inl (No_regex_match data, snd (capture_pane E w))
         else
           (case findall_item (last found) of
              Groups gs \<Rightarrow> Inl (AttributeError, snd (capture_pane E w))
            | Text m \<Rightarrow>
               (case wait_for_prompt E
                       (sent E st (remove_char NL m @ [NL]) (snd (capture_pane E w))) of
                  Inl f \<Rightarrow> Inl f
                | Inr w3 \<Rightarrow> check_exit_status E st w3)))
   \<and> findall_item (whole, []) = Text whole
   \<and> findall_item (whole, [g]) = Text g
   \<and> findall_item (whole, g # h # gs) = Groups (g # h # gs)
   \<and> NL \<notin> set (remove_char NL m)
   \<and> send_keys E st (remove_char NL m @ [NL]) v = Inr (sent E st (remove_char NL m @ [NL]) v)
   \<and> trace (snd (capture_pane E w)) = trace w @ [Tmux_capture (screen_of E (captures w))]"
  by (simp add: dispatch_copypaste_sent findall_item_def remove_char_def send_keys_sent
      capture_pane_def)

lemma id_shell_prompt: "at_prompt (screen_of id_shell k)"
  by (simp add: id_shell_def at_prompt_def rstrip_nl_def rstrip_chars_def endswith_def)

text \<open>The theorem on the terminal \<open>id_shell\<close>, whose screen holds two matches of
  \<^verbatim>\<open>id: (\w+)\<close>: what is sent is \<^verbatim>\<open>b2\<close>, the group of the second match, and a newline.\<close>

theorem copypaste_two_matches_example:
  "dispatch id_shell [] quiet ''copypaste'' id_pattern world0 =
     Inr (snd (capture_pane id_shell
            (tmux_send (''b2'' @ [NL]) (snd (capture_pane id_shell world0)))))
   \<and> trace (snd (capture_pane id_shell
            (tmux_send (''b2'' @ [NL]) (snd (capture_pane id_shell world0))))) =
       [Tmux_capture (screen_of id_shell 0), Tmux_send (''b2'' @ [NL]),
        Tmux_capture (screen_of id_shell 1)]"
proof -
  let ?w1 = "snd (capture_pane id_shell world0)"
  have f: "re_scan id_shell id_pattern (screen_of id_shell (captures world0)) =
      Some [(''id: a1'', [''a1'']), (''id: b2'', [''b2''])]"
    by (simp add: id_shell_def)
  have s: "sent id_shell quiet (remove_char NL ''b2'' @ [NL]) ?w1 = tmux_send (''b2'' @ [NL]) ?w1"
    by (simp add: sent_def quiet_def remove_char_def)
  have p: "wait_for_prompt id_shell (tmux_send (''b2'' @ [NL]) ?w1) =
      Inr (snd (capture_pane id_shell (tmux_send (''b2'' @ [NL]) ?w1)))"
    by (rule wait_for_prompt_hit) (rule id_shell_prompt)
  have c: "check_exit_status id_shell quiet v = Inr v" for v
    by (simp add: check_exit_status_def quiet_def)
  have d: "dispatch id_shell [] quiet ''copypaste'' id_pattern world0 =
     Inr (snd (capture_pane id_shell (tmux_send (''b2'' @ [NL]) ?w1)))"
    using copypaste_dispatch_last_item[where E = id_shell and actions = "[]" and st = quiet
        and data = id_pattern and w = world0]
    unfolding f by (simp add: findall_item_def s[simplified] p[simplified] c)
  moreover have "trace (snd (capture_pane id_shell (tmux_send (''b2'' @ [NL]) ?w1))) =
       [Tmux_capture (screen_of id_shell 0), Tmux_send (''b2'' @ [NL]),
        Tmux_capture (screen_of id_shell 1)]"
    by (simp add: capture_pane_def tmux_send_def world0_def)
  ultimately show ?thesis by blast
qed

text \<open>
  C3, as the specification words it, fails on a pattern with two groups.  The screen of
  \<open>two_group_shell\<close> holds one match of \<^verbatim>\<open>(a)(b)\<close>; the method raises \<^verbatim>\<open>AttributeError\<close> on the
  tuple of its groups, and the capture is the only thing it did: nothing was sent.
\<close>

theorem copypaste_two_groups_counterexample:
  "re_scan two_group_shell ''(a)(b)'' (screen_of two_group_shell 0) = Some [(''ab'', [''a'', ''b''])]
   \<and> dispatch two_group_shell [] quiet ''copypaste'' ''(a)(b)'' world0 =
       Inl (AttributeError, snd (capture_pane two_group_shell world0))
   \<and> trace (snd (capture_pane two_group_shell world0)) = [Tmux_capture ''ab'']"
  by (simp add: dispatch_copypaste two_group_shell_def capture_pane_def world0_def
      findall_item_def)

lemma sends_after_prompt_polls:
  "sends_after_prompt (Tmux_capture s # Sleep d # evs) = (at_prompt s \<or> sends_after_prompt evs)"
  by simp

lemma poll_prompt_events:
  "(\<forall>w1. poll_prompt E d w = Inr w1 \<longrightarrow>
      (\<exists>evs. trace w1 = trace w @ evs \<and> (\<forall>more. sends_after_prompt (evs @ more))))
   \<and> (\<forall>f. poll_prompt E d w = Inl f \<longrightarrow>
      (\<exists>evs. trace (snd f) = trace w @ evs \<and> sends_after_prompt evs))"
proof (induction E d w rule: poll_prompt.induct)
  case (1 E d w)
  let ?s = "screen_of E (captures w)"
  let ?v = "sleep 1000 (snd (capture_pane E w))"
  have tv: "trace ?v = trace w @ [Tmux_capture ?s, Sleep 1000]"
    by (simp add: sleep_def capture_pane_def)
  consider (timeout) "\<not> now w < d" | (hit) "now w < d" "at_prompt ?s"
    | (miss) "now w < d" "\<not> at_prompt ?s"
    by blast
  then show ?case
  proof cases
    case timeout
    then have "poll_prompt E d w = Inl (Timeout_prompt, w)"
      by (subst poll_prompt.simps) simp
    then show ?thesis by simp
  next
    case hit
    then have "poll_prompt E d w = Inr (snd (capture_pane E w))"
      by (subst poll_prompt.simps) (simp add: capture_pane_def)
    moreover have "trace (snd (capture_pane E w)) = trace w @ [Tmux_capture ?s]"
      by (simp add: capture_pane_def)
    moreover have "\<forall>more. sends_after_prompt ([Tmux_capture ?s] @ more)"
      using hit(2) by simp
    ultimately show ?thesis by auto
  next
    case miss
    then have eq: "poll_prompt E d w = poll_prompt E d ?v"
      by (subst poll_prompt.simps) (simp add: capture_pane_def)
    from miss have ih: "(\<forall>w1. poll_prompt E d ?v = Inr w1 \<longrightarrow>
          (\<exists>evs. trace w1 = trace ?v @ evs \<and> (\<forall>more. sends_after_prompt (evs @ more))))
       \<and> (\<forall>f. poll_prompt E d ?v = Inl f \<longrightarrow>
          (\<exists>evs. trace (snd f) = trace ?v @ evs \<and> sends_after_prompt evs))"
      by (intro "1.IH") (simp_all add: capture_pane_def)
    show ?thesis
    proof (intro conjI allI impI)
      fix w1
      assume "poll_prompt E d w = Inr w1"
      with eq have "poll_prompt E d ?v = Inr w1" by simp
      with ih obtain evs where e: "trace w1 = trace ?v @ evs"
        and p: "\<forall>more. sends_after_prompt (evs @ more)"
        by blast
      have "trace w1 = trace w @ (Tmux_capture ?s # Sleep 1000 # evs)"
        using e tv by simp
      moreover have "\<forall>more. sends_after_prompt ((Tmux_capture ?s # Sleep 1000 # evs) @ more)"
        using p by simp
      ultimately show "\<exists>evs. trace w1 = trace w @ evs \<and> (\<forall>more. sends_after_prompt (evs @ more))"
        by blast
    next
      fix f
      assume "poll_prompt E d w = Inl f"
      with eq have "poll_prompt E d ?v = Inl f" by simp
      with ih obtain evs where e: "trace (snd f) = trace ?v @ evs"
        and p: "sends_after_prompt evs"
        by blast
      have "trace (snd f) = trace w @ (Tmux_capture ?s # Sleep 1000 # evs)"
        using e tv by simp
      moreover have "sends_after_prompt (Tmux_capture ?s # Sleep 1000 # evs)"
        using p by simp
      ultimately show "\<exists>evs. trace (snd f) = trace w @ evs \<and> sends_after_prompt evs"
        by blast
    qed
  qed
qed

lemma bash_sends_after_prompt:
  "sends_after_prompt (events_since w (final (dispatch E actions st ''bash'' data w)))"
proof (cases "wait_for_prompt E w")
  case (Inl f)
  then have d: "dispatch E actions st ''bash'' data w = Inl f"
    by (simp add: dispatch_bash)
  from Inl obtain evs where "trace (snd f) = trace w @ evs" "sends_after_prompt evs"
    using poll_prompt_events[of E "now w + TIMEOUT" w] unfolding wait_for_prompt_def by blast
  then show ?thesis
    unfolding d by (simp add: events_since_def final_def)
next
  case (Inr w1)
  let ?r = "final (dispatch E actions st ''bash'' data w)"
  from Inr obtain evs where e: "trace w1 = trace w @ evs"
    and p: "\<forall>more. sends_after_prompt (evs @ more)"
    using poll_prompt_events[of E "now w + TIMEOUT" w] unfolding wait_for_prompt_def by blast
  have "later w1 ?r"
    unfolding dispatch_bash Inr sum.case
    apply (rule later_then, simp)
    apply (simp split: option.split)
    apply (intro conjI impI allI later_then)
       apply simp_all
    done
  then obtain more where "trace ?r = trace w1 @ more"
    unfolding later_iff by blast
  with e have "events_since w ?r = evs @ more"
    by (simp add: events_since_def)
  with p show ?thesis by simp
qed

lemma open_sends_after_prompt:
  "sends_after_prompt (events_since w (final (dispatch E actions st ''open'' data w)))"
  by (simp add: dispatch_open events_since_def capture_pane_def focus_browser_def
      split: list.split)

text \<open>
  C5.  Of the three methods, \<^verbatim>\<open>bash\<close> and \<^verbatim>\<open>open\<close> send nothing to the terminal before a
  capture that is at the prompt, whatever the world: \<^verbatim>\<open>bash\<close> waits for the prompt first, and
  \<^verbatim>\<open>open\<close> sends nothing at all.  The \<^verbatim>\<open>copypaste\<close> method does not wait: the first capture of
  \<open>busy_shell\<close> is not at the prompt; the method matches its pattern in that capture and
  sends the match at once.  Its only wait for the prompt comes after the send.
\<close>

theorem copypaste_sends_before_prompt:
  "sends_after_prompt (events_since w (final (dispatch E actions st ''bash'' data w)))
   \<and> sends_after_prompt (events_since w (final (dispatch E actions st ''open'' data w)))
   \<and> \<not> at_prompt (screen_of busy_shell 0)
   \<and> dispatch busy_shell [] quiet ''copypaste'' ''running'' world0 =
       Inr (snd (capture_pane busy_shell
              (tmux_send (''running'' @ [NL]) (snd (capture_pane busy_shell world0)))))
   \<and> events_since world0 (final (dispatch busy_shell [] quiet ''copypaste'' ''running'' world0)) =
       [Tmux_capture (screen_of busy_shell 0), Tmux_send (''running'' @ [NL]),
        Tmux_capture (screen_of busy_shell 1)]
   \<and> \<not> sends_after_prompt
         (events_since world0 (final (dispatch busy_shell [] quiet ''copypaste'' ''running'' world0)))"
proof -
  let ?w1 = "snd (capture_pane busy_shell world0)"
  have np: "\<not> at_prompt (screen_of busy_shell 0)"
    and pr: "at_prompt (screen_of busy_shell (Suc k))" for k
    by (simp_all add: busy_shell_def at_prompt_def rstrip_nl_def rstrip_chars_def endswith_def)
  have f: "re_scan busy_shell ''running'' (screen_of busy_shell (captures world0)) =
      Some [(''running'', [])]"
    by (simp add: busy_shell_def world0_def)
  have s: "sent busy_shell quiet (remove_char NL ''running'' @ [NL]) ?w1 =
      tmux_send (''running'' @ [NL]) ?w1"
    by (simp add: sent_def quiet_def remove_char_def)
  have c1: "captures (tmux_send (''running'' @ [NL]) ?w1) = Suc 0"
    by (simp add: tmux_send_def capture_pane_def world0_def)
  have p: "wait_for_prompt busy_shell (tmux_send (''running'' @ [NL]) ?w1) =
      Inr (snd (capture_pane busy_shell (tmux_send (''running'' @ [NL]) ?w1)))"
    by (rule wait_for_prompt_hit) (simp only: c1 pr)
  have c: "check_exit_status busy_shell quiet v = Inr v" for v
    by (simp add: check_exit_status_def quiet_def)
  have d: "dispatch busy_shell [] quiet ''copypaste'' ''running'' world0 =
     Inr (snd (capture_pane busy_shell (tmux_send (''running'' @ [NL]) ?w1)))"
    unfolding dispatch_copypaste_sent f
    by (simp add: findall_item_def s[simplified] p[simplified] c)
  have t: "events_since world0 (final (dispatch busy_shell [] quiet ''copypaste'' ''running'' world0)) =
       [Tmux_capture (screen_of busy_shell 0), Tmux_send (''running'' @ [NL]),
        Tmux_capture (screen_of busy_shell 1)]"
    unfolding d by (simp add: events_since_def capture_pane_def tmux_send_def world0_def)
  have n: "\<not> sends_after_prompt
         (events_since world0 (final (dispatch busy_shell [] quiet ''copypaste'' ''running'' world0)))"
    unfolding t using np by simp
  from bash_sends_after_prompt open_sends_after_prompt np d t n show ?thesis
    by blast
qed

text \<open>
  C6.  The \<^verbatim>\<open>open\<close> method never returns.  It raises \<^verbatim>\<open>IndexError\<close> when no line of the
  capture starts with a bracketed text, and otherwise \<^verbatim>\<open>NameError\<close> on \<^verbatim>\<open>status.interactive\<close>,
  after the browser was opened and focused: in either mode no key is read, and the command
  that runs the action raises with it instead of moving the cursor.  On \<open>open_shell\<close> the
  address \<^verbatim>\<open>10.0.0.4\<close> replaces \<^verbatim>\<open>node1\<close> in the URL, the browser is opened, and \<^verbatim>\<open>NameError\<close> is
  raised.
\<close>

theorem open_dispatch_raises:
  "isl (dispatch E actions st ''open'' data w)
   \<and> isl (apply_command E actions st (a\<lparr>act_method := ''open''\<rparr>) ''y'' w)
   \<and> dispatch open_shell [] State_init ''open'' ''http://node1:8000/'' world0 =
       Inl (NameError ''status'',
            focus_browser (snd (capture_pane open_shell world0)
              \<lparr>trace := trace (snd (capture_pane open_shell world0)) @
                 [Xdg_open ''http://10.0.0.4:8000/'']\<rparr>))
   \<and> trace (focus_browser (snd (capture_pane open_shell world0)
              \<lparr>trace := trace (snd (capture_pane open_shell world0)) @
                 [Xdg_open ''http://10.0.0.4:8000/'']\<rparr>)) =
       [Tmux_capture (screen_of open_shell 0), Xdg_open ''http://10.0.0.4:8000/'',
        Workspace 4, Workspace 1]"
proof (intro conjI)
  show o: "isl (dispatch E actions st ''open'' data w)" for E actions st data w
    by (simp add: dispatch_open split: list.split)
  show "isl (apply_command E actions st (a\<lparr>act_method := ''open''\<rparr>) ''y'' w)"
    using o[of E actions st "remove_char CHR 0x60 (strip (act_data a))" "focus_terminal w"]
    by (cases "dispatch E actions st ''open'' (remove_char CHR 0x60 (strip (act_data a)))
                 (focus_terminal w)") (simp_all add: apply_command_def)
  have b: "findall_bracket (fst (capture_pane open_shell world0)) = [''10.0.0.4'']"
    by (simp add: capture_pane_def open_shell_def findall_bracket_def bracket_group_def
        List.map_filter_def)
  show "dispatch open_shell [] State_init ''open'' ''http://node1:8000/'' world0 =
       Inl (NameError ''status'',
            focus_browser (snd (capture_pane open_shell world0)
              \<lparr>trace := trace (snd (capture_pane open_shell world0)) @
                 [Xdg_open ''http://10.0.0.4:8000/'']\<rparr>))"
    unfolding dispatch_open b by simp
  show "trace (focus_browser (snd (capture_pane open_shell world0)
              \<lparr>trace := trace (snd (capture_pane open_shell world0)) @
                 [Xdg_open ''http://10.0.0.4:8000/'']\<rparr>)) =
       [Tmux_capture (screen_of open_shell 0), Xdg_open ''http://10.0.0.4:8000/'',
        Workspace 4, Workspace 1]"
    by (simp add: focus_browser_def capture_pane_def world0_def)
qed

section \<open>The cursor under the operator's commands\<close>

lemma apply_command_advance:
  "command = ''n'' \<or> command = [ESC, CHR ''['', CHR ''C''] \<Longrightarrow>
     apply_command E actions st a command w = Inr (Continue, st\<lparr>next_step := next_step st + 1\<rparr>, w)"
  by (simp add: apply_command_def)

lemma apply_command_retreat:
  "command = ''p'' \<or> command = [ESC, CHR ''['', CHR ''D''] \<Longrightarrow>
     apply_command E actions st a command w = Inr (Continue, st\<lparr>next_step := next_step st - 1\<rparr>, w)"
  by (erule disjE) (simp_all add: apply_command_def)

lemma apply_command_toggles:
  "apply_command E actions st a ''s'' w = Inr (Continue, st\<lparr>simulate_type := \<not> simulate_type st\<rparr>, w)"
  "apply_command E actions st a ''v'' w = Inr (Continue, st\<lparr>verify_status := \<not> verify_status st\<rparr>, w)"
  "apply_command E actions st a ''q'' w = Inr (Break, st, w)"
  "apply_command E actions st a ''c'' w = Inr (Continue, st\<lparr>interactive := False\<rparr>, w)"
  by (simp_all add: apply_command_def)

lemma apply_command_jump:
  "apply_command E actions st a ''g'' w =
     Inr (Continue, st\<lparr>next_step := number_of E (numbers_read w)\<rparr>,
          if number_of E (numbers_read w) = 0 then goto 1 (snd (prompt_int E w))
          else snd (prompt_int E w))"
  by (simp add: apply_command_def prompt_int_def Let_def)

lemma apply_command_execute:
  "command = ''y'' \<or> command = [CR] \<or> command = '' '' \<Longrightarrow>
     apply_command E actions st a command w =
       (case dispatch E actions st (act_method a)
               (remove_char CHR 0x60 (strip (act_data a))) (focus_terminal w) of
          Inl f \<Rightarrow> Inl f
        | Inr w1 \<Rightarrow> Inr (Continue, st\<lparr>next_step := next_step st + 1\<rparr>, w1))"
  by (elim disjE) (simp_all add: apply_command_def)

lemma apply_command_unknown:
  "\<not> (command = ''n'' \<or> command = [ESC, CHR ''['', CHR ''C'']) \<Longrightarrow>
   \<not> (command = ''p'' \<or> command = [ESC, CHR ''['', CHR ''D'']) \<Longrightarrow>
   command \<noteq> ''s'' \<Longrightarrow> command \<noteq> ''v'' \<Longrightarrow> command \<noteq> ''g'' \<Longrightarrow>
   command \<noteq> ''q'' \<Longrightarrow> command \<noteq> ''c'' \<Longrightarrow>
   \<not> (command = ''y'' \<or> command = [CR] \<or> command = '' '') \<Longrightarrow>
     apply_command E actions st a command w = Inr (Continue, st, w)"
  by (simp add: apply_command_def)

lemma apply_command_cursor:
  assumes "apply_command E actions st a command w = Inr (c, st', w')"
  shows "next_step st' =
     (if command = ''n'' \<or> command = [ESC, CHR ''['', CHR ''C''] then next_step st + 1
      else if command = ''p'' \<or> command = [ESC, CHR ''['', CHR ''D''] then next_step st - 1
      else if command = ''g'' then number_of E (numbers_read w)
      else if command = ''y'' \<or> command = [CR] \<or> command = '' '' then next_step st + 1
      else next_step st)"
proof -
  define An where "An \<longleftrightarrow> command = ''n'' \<or> command = [ESC, CHR ''['', CHR ''C'']"
  define Ap where "Ap \<longleftrightarrow> command = ''p'' \<or> command = [ESC, CHR ''['', CHR ''D'']"
  define As where "As \<longleftrightarrow> command = ''s''"
  define Av where "Av \<longleftrightarrow> command = ''v''"
  define Ag where "Ag \<longleftrightarrow> command = ''g''"
  define Aq where "Aq \<longleftrightarrow> command = ''q''"
  define Ac where "Ac \<longleftrightarrow> command = ''c''"
  define Ay where "Ay \<longleftrightarrow> command = ''y'' \<or> command = [CR] \<or> command = '' ''"
  note atoms = An_def Ap_def As_def Av_def Ag_def Aq_def Ac_def Ay_def
  consider (n) An | (p) Ap | (s) As | (v) Av | (g) Ag | (q) Aq | (c) Ac | (y) Ay
    | (u) "\<not> An" "\<not> Ap" "\<not> As" "\<not> Av" "\<not> Ag" "\<not> Aq" "\<not> Ac" "\<not> Ay"
    by blast
  then show ?thesis
  proof cases
    case n
    then have n: "command = ''n'' \<or> command = [ESC, CHR ''['', CHR ''C'']" unfolding atoms .
    with assms have "st' = st\<lparr>next_step := next_step st + 1\<rparr>"
      by (simp add: apply_command_advance)
    with n show ?thesis by simp
  next
    case p
    then have p: "command = ''p'' \<or> command = [ESC, CHR ''['', CHR ''D'']" unfolding atoms .
    with assms have "st' = st\<lparr>next_step := next_step st - 1\<rparr>"
      by (simp add: apply_command_retreat)
    moreover from p have "\<not> (command = ''n'' \<or> command = [ESC, CHR ''['', CHR ''C''])" by auto
    ultimately show ?thesis using p by simp
  next
    case s
    then have s: "command = ''s''" unfolding atoms .
    with assms have "st' = st\<lparr>simulate_type := \<not> simulate_type st\<rparr>"
      by (simp add: apply_command_toggles)
    with s show ?thesis by simp
  next
    case v
    then have v: "command = ''v''" unfolding atoms .
    with assms have "st' = st\<lparr>verify_status := \<not> verify_status st\<rparr>"
      by (simp add: apply_command_toggles)
    with v show ?thesis by simp
  next
    case g
    then have g: "command = ''g''" unfolding atoms .
    with assms have "st' = st\<lparr>next_step := number_of E (numbers_read w)\<rparr>"
      by (simp add: apply_command_jump)
    with g show ?thesis by simp
  next
    case q
    then have q: "command = ''q''" unfolding atoms .
    with assms have "st' = st" by (simp add: apply_command_toggles)
    with q show ?thesis by simp
  next
    case c
    then have c: "command = ''c''" unfolding atoms .
    with assms have "st' = st\<lparr>interactive := False\<rparr>" by (simp add: apply_command_toggles)
    with c show ?thesis by simp
  next
    case y
    then have y: "command = ''y'' \<or> command = [CR] \<or> command = '' ''" unfolding atoms .
    with assms have "st' = st\<lparr>next_step := next_step st + 1\<rparr>"
      by (auto simp: apply_command_execute split: sum.splits)
    moreover from y have "\<not> (command = ''n'' \<or> command = [ESC, CHR ''['', CHR ''C''])"
      "\<not> (command = ''p'' \<or> command = [ESC, CHR ''['', CHR ''D''])" "command \<noteq> ''g''"
      by auto
    ultimately show ?thesis using y by simp
  next
    case u
    then have u: "\<not> (command = ''n'' \<or> command = [ESC, CHR ''['', CHR ''C''])"
      "\<not> (command = ''p'' \<or> command = [ESC, CHR ''['', CHR ''D''])"
      "command \<noteq> ''s''" "command \<noteq> ''v''" "command \<noteq> ''g''"
      "command \<noteq> ''q''" "command \<noteq> ''c''"
      "\<not> (command = ''y'' \<or> command = [CR] \<or> command = '' '')"
      unfolding atoms by blast+
    with assms have "st' = st" by (simp add: apply_command_unknown)
    with u show ?thesis by simp
  qed
qed

lemma apply_command_control:
  assumes "apply_command E actions st a command w = Inr (c, st', w')"
  shows "c = (if command = ''q'' then Break else Continue)"
proof -
  define An where "An \<longleftrightarrow> command = ''n'' \<or> command = [ESC, CHR ''['', CHR ''C'']"
  define Ap where "Ap \<longleftrightarrow> command = ''p'' \<or> command = [ESC, CHR ''['', CHR ''D'']"
  define As where "As \<longleftrightarrow> command = ''s''"
  define Av where "Av \<longleftrightarrow> command = ''v''"
  define Ag where "Ag \<longleftrightarrow> command = ''g''"
  define Aq where "Aq \<longleftrightarrow> command = ''q''"
  define Ac where "Ac \<longleftrightarrow> command = ''c''"
  define Ay where "Ay \<longleftrightarrow> command = ''y'' \<or> command = [CR] \<or> command = '' ''"
  note atoms = An_def Ap_def As_def Av_def Ag_def Aq_def Ac_def Ay_def
  consider (n) An | (p) Ap | (s) As | (v) Av | (g) Ag | (q) Aq | (c) Ac | (y) Ay
    | (u) "\<not> An" "\<not> Ap" "\<not> As" "\<not> Av" "\<not> Ag" "\<not> Aq" "\<not> Ac" "\<not> Ay"
    by blast
  then show ?thesis
  proof cases
    case n
    then have n: "command = ''n'' \<or> command = [ESC, CHR ''['', CHR ''C'']" unfolding atoms .
    with assms have "c = Continue" by (simp add: apply_command_advance)
    moreover from n have "command \<noteq> ''q''" by auto
    ultimately show ?thesis by simp
  next
    case p
    then have p: "command = ''p'' \<or> command = [ESC, CHR ''['', CHR ''D'']" unfolding atoms .
    with assms have "c = Continue" by (simp add: apply_command_retreat)
    moreover from p have "command \<noteq> ''q''" by auto
    ultimately show ?thesis by simp
  next
    case s
    then have s: "command = ''s''" unfolding atoms .
    with assms show ?thesis by (simp add: apply_command_toggles)
  next
    case v
    then have v: "command = ''v''" unfolding atoms .
    with assms show ?thesis by (simp add: apply_command_toggles)
  next
    case g
    then have g: "command = ''g''" unfolding atoms .
    with assms show ?thesis by (simp add: apply_command_jump)
  next
    case q
    then have q: "command = ''q''" unfolding atoms .
    with assms show ?thesis by (simp add: apply_command_toggles)
  next
    case c
    then have c: "command = ''c''" unfolding atoms .
    with assms show ?thesis by (simp add: apply_command_toggles)
  next
    case y
    then have y: "command = ''y'' \<or> command = [CR] \<or> command = '' ''" unfolding atoms .
    with assms have "c = Continue"
      by (auto simp: apply_command_execute split: sum.splits)
    moreover from y have "command \<noteq> ''q''" by auto
    ultimately show ?thesis by simp
  next
    case u
    then have u: "\<not> (command = ''n'' \<or> command = [ESC, CHR ''['', CHR ''C''])"
      "\<not> (command = ''p'' \<or> command = [ESC, CHR ''['', CHR ''D''])"
      "command \<noteq> ''s''" "command \<noteq> ''v''" "command \<noteq> ''g''"
      "command \<noteq> ''q''" "command \<noteq> ''c''"
      "\<not> (command = ''y'' \<or> command = [CR] \<or> command = '' '')"
      unfolding atoms by blast+
    with assms have "c = Continue" by (simp add: apply_command_unknown)
    with u show ?thesis by simp
  qed
qed

lemma iteration_command:
  assumes "iteration fuel E actions st w = Some (Inr (c, st', w'))"
  shows "\<exists>a command wa. apply_command E actions st a command wa = Inr (c, st', w')
           \<and> (command = ''y'' \<or> (\<exists>k. command = key_of E k))"
proof (cases "py_index actions (next_step st)")
  case None
  with assms show ?thesis by (simp add: iteration_def)
next
  case (Some a)
  with assms obtain w1 where c: "catchup fuel E st (act_slide a) (save st w) = Some w1"
    and r: "apply_command E actions st a
                  (if interactive st then fst (getchar E w1) else ''y'')
                  (if interactive st then snd (getchar E w1) else w1) = Inr (c, st', w')"
    by (auto simp: iteration_def split: option.splits)
  have "(if interactive st then fst (getchar E w1) else ''y'') = ''y''
      \<or> (\<exists>k. (if interactive st then fst (getchar E w1) else ''y'') = key_of E k)"
    by (auto simp: getchar_def)
  with r show ?thesis by blast
qed

lemma iteration_interactive:
  "py_index actions (next_step st) = Some a \<Longrightarrow>
   catchup fuel E st (act_slide a) (save st w) = Some w1 \<Longrightarrow>
     iteration fuel E actions st w =
       Some (apply_command E actions st a
               (if interactive st then key_of E (keys_read w1) else ''y'')
               (if interactive st then snd (getchar E w1) else w1))"
  by (simp add: iteration_def getchar_def)

lemma run_cursor:
  assumes keys: "\<forall>k. key_of E k \<noteq> ''p'' \<and> key_of E k \<noteq> [ESC, CHR ''['', CHR ''D'']
                     \<and> key_of E k \<noteq> ''g''"
  shows "0 \<le> next_step st \<Longrightarrow> next_step st \<le> int (length actions) \<Longrightarrow>
         run fuel E actions st w = Some (Inr (st', w')) \<Longrightarrow>
           0 \<le> next_step st' \<and> next_step st' \<le> int (length actions)
           \<and> ((\<forall>k. key_of E k \<noteq> ''q'') \<longrightarrow> next_step st' = int (length actions))"
proof (induction fuel arbitrary: st w)
  case 0
  then show ?case by (auto split: if_splits)
next
  case (Suc fuel)
  show ?case
  proof (cases "next_step st < int (length actions)")
    case False
    with Suc.prems show ?thesis by auto
  next
    case True
    from Suc.prems(3) True obtain c st1 w1 where
      it: "iteration (Suc fuel) E actions st w = Some (Inr (c, st1, w1))"
      by (auto split: option.splits sum.splits)
    from iteration_command[OF it] obtain a command wa where
      ac: "apply_command E actions st a command wa = Inr (c, st1, w1)"
      and cm: "command = ''y'' \<or> (\<exists>k. command = key_of E k)"
      by blast
    from cm keys have np: "command \<noteq> ''p''" "command \<noteq> [ESC, CHR ''['', CHR ''D'']"
      "command \<noteq> ''g''"
      by auto
    have r1: "0 \<le> next_step st1 \<and> next_step st1 \<le> int (length actions)"
      using apply_command_cursor[OF ac] np Suc.prems(1) True by (simp split: if_splits)
    have ctl: "c = (if command = ''q'' then Break else Continue)"
      using ac by (rule apply_command_control)
    show ?thesis
    proof (cases c)
      case Continue
      with Suc.prems(3) True it have "run fuel E actions st1 w1 = Some (Inr (st', w'))"
        by simp
      with r1 show ?thesis using Suc.IH by blast
    next
      case Break
      with Suc.prems(3) True it have e: "st' = st1" by simp
      from Break ctl have "command = ''q''" by (simp split: if_splits)
      with cm have "\<exists>k. key_of E k = ''q''" by auto
      with r1 e show ?thesis by blast
    qed
  qed
qed

text \<open>
  C4, as the code has it.  What each command does to the state, whatever the cursor: \<^verbatim>\<open>n\<close>
  and the right arrow add one to the cursor; \<^verbatim>\<open>p\<close> and the left arrow subtract one, with no
  test; \<^verbatim>\<open>s\<close>, \<^verbatim>\<open>v\<close> and \<^verbatim>\<open>c\<close> change a flag and leave the cursor; \<^verbatim>\<open>q\<close> leaves the state and ends the
  loop; \<^verbatim>\<open>g\<close> stores the number the operator gives, whatever it is; \<^verbatim>\<open>y\<close>, return and space run
  the action and add one to the cursor when it did not raise; any other key leaves the
  state.  So from a cursor inside the list every command but \<^verbatim>\<open>p\<close>, the left arrow and \<^verbatim>\<open>g\<close>
  leaves the cursor between 0 and the length of the list.

  The loop: a pass applies the chain to the key the operator pressed (\<^verbatim>\<open>y\<close> without the
  operator); with the cursor at or beyond the length of the list the loop stops and leaves
  the state as it is; it also stops when the pass ends by \<^verbatim>\<open>break\<close>, and goes on with the
  state of the pass otherwise.  When the operator never presses \<^verbatim>\<open>p\<close>, the left arrow or \<^verbatim>\<open>g\<close>,
  a run that starts with the cursor between 0 and the length of the list and returns, ends
  with the cursor in that range; when the operator never presses \<^verbatim>\<open>q\<close> either, it ends with
  the cursor at the length of the list.
\<close>

theorem cursor_range_by_command:
  "(command = ''n'' \<or> command = [ESC, CHR ''['', CHR ''C''] \<longrightarrow>
      apply_command E actions st a command w =
        Inr (Continue, st\<lparr>next_step := next_step st + 1\<rparr>, w))
   \<and> (command = ''p'' \<or> command = [ESC, CHR ''['', CHR ''D''] \<longrightarrow>
      apply_command E actions st a command w =
        Inr (Continue, st\<lparr>next_step := next_step st - 1\<rparr>, w))
   \<and> apply_command E actions st a ''s'' w =
       Inr (Continue, st\<lparr>simulate_type := \<not> simulate_type st\<rparr>, w)
   \<and> apply_command E actions st a ''v'' w =
       Inr (Continue, st\<lparr>verify_status := \<not> verify_status st\<rparr>, w)
   \<and> apply_command E actions st a ''c'' w = Inr (Continue, st\<lparr>interactive := False\<rparr>, w)
   \<and> apply_command E actions st a ''q'' w = Inr (Break, st, w)
   \<and> apply_command E actions st a ''g'' w =
       Inr (Continue, st\<lparr>next_step := number_of E (numbers_read w)\<rparr>,
            if number_of E (numbers_read w) = 0 then goto 1 (snd (prompt_int E w))
            else snd (prompt_int E w))
   \<and> (command = ''y'' \<or> command = [CR] \<or> command = '' '' \<longrightarrow>
      apply_command E actions st a command w =
        (case dispatch E actions st (act_method a)
                (remove_char CHR 0x60 (strip (act_data a))) (focus_terminal w) of
           Inl f \<Rightarrow> Inl f
         | Inr w1 \<Rightarrow> Inr (Continue, st\<lparr>next_step := next_step st + 1\<rparr>, w1)))
   \<and> (\<not> (command = ''n'' \<or> command = [ESC, CHR ''['', CHR ''C''])
      \<and> \<not> (command = ''p'' \<or> command = [ESC, CHR ''['', CHR ''D''])
      \<and> command \<noteq> ''s'' \<and> command \<noteq> ''v'' \<and> command \<noteq> ''g''
      \<and> command \<noteq> ''q'' \<and> command \<noteq> ''c''
      \<and> \<not> (command = ''y'' \<or> command = [CR] \<or> command = '' '') \<longrightarrow>
      apply_command E actions st a command w = Inr (Continue, st, w))
   \<and> (0 \<le> next_step st \<and> next_step st < int (length actions)
      \<and> apply_command E actions st a command w = Inr (c, st', w')
      \<and> command \<noteq> ''p'' \<and> command \<noteq> [ESC, CHR ''['', CHR ''D''] \<and> command \<noteq> ''g'' \<longrightarrow>
      0 \<le> next_step st' \<and> next_step st' \<le> int (length actions))
   \<and> (py_index actions (next_step st) = Some a
      \<and> catchup fuel E st (act_slide a) (save st w) = Some w1 \<longrightarrow>
      iteration fuel E actions st w =
        Some (apply_command E actions st a
                (if interactive st then key_of E (keys_read w1) else ''y'')
                (if interactive st then snd (getchar E w1) else w1)))
   \<and> (int (length actions) \<le> next_step st \<longrightarrow> run fuel E actions st w = Some (Inr (st, w)))
   \<and> (next_step st < int (length actions)
      \<and> iteration (Suc fuel) E actions st w = Some (Inr (Break, st', w')) \<longrightarrow>
      run (Suc fuel) E actions st w = Some (Inr (st', w')))
   \<and> (next_step st < int (length actions)
      \<and> iteration (Suc fuel) E actions st w = Some (Inr (Continue, st', w')) \<longrightarrow>
      run (Suc fuel) E actions st w = run fuel E actions st' w')
   \<and> (0 \<le> next_step st \<and> next_step st \<le> int (length actions)
      \<and> (\<forall>k. key_of E k \<noteq> ''p'' \<and> key_of E k \<noteq> [ESC, CHR ''['', CHR ''D'']
               \<and> key_of E k \<noteq> ''g'')
      \<and> run fuel E actions st w = Some (Inr (st', w')) \<longrightarrow>
      0 \<le> next_step st' \<and> next_step st' \<le> int (length actions)
      \<and> ((\<forall>k. key_of E k \<noteq> ''q'') \<longrightarrow> next_step st' = int (length actions)))"
proof -
  have n: "command = ''n'' \<or> command = [ESC, CHR ''['', CHR ''C''] \<longrightarrow>
      apply_command E actions st a command w =
        Inr (Continue, st\<lparr>next_step := next_step st + 1\<rparr>, w)"
    using apply_command_advance by blast
  have p: "command = ''p'' \<or> command = [ESC, CHR ''['', CHR ''D''] \<longrightarrow>
      apply_command E actions st a command w =
        Inr (Continue, st\<lparr>next_step := next_step st - 1\<rparr>, w)"
    using apply_command_retreat by blast
  note t = apply_command_toggles[where E = E and actions = actions and st = st and a = a and w = w]
  note g = apply_command_jump[where E = E and actions = actions and st = st and a = a and w = w]
  have y: "command = ''y'' \<or> command = [CR] \<or> command = '' '' \<longrightarrow>
      apply_command E actions st a command w =
        (case dispatch E actions st (act_method a)
                (remove_char CHR 0x60 (strip (act_data a))) (focus_terminal w) of
           Inl f \<Rightarrow> Inl f
         | Inr w1 \<Rightarrow> Inr (Continue, st\<lparr>next_step := next_step st + 1\<rparr>, w1))"
    using apply_command_execute by blast
  have u: "\<not> (command = ''n'' \<or> command = [ESC, CHR ''['', CHR ''C''])
      \<and> \<not> (command = ''p'' \<or> command = [ESC, CHR ''['', CHR ''D''])
      \<and> command \<noteq> ''s'' \<and> command \<noteq> ''v'' \<and> command \<noteq> ''g''
      \<and> command \<noteq> ''q'' \<and> command \<noteq> ''c''
      \<and> \<not> (command = ''y'' \<or> command = [CR] \<or> command = '' '') \<longrightarrow>
      apply_command E actions st a command w = Inr (Continue, st, w)"
    by (intro impI, elim conjE, rule apply_command_unknown, assumption+)
  have r: "0 \<le> next_step st \<and> next_step st < int (length actions)
      \<and> apply_command E actions st a command w = Inr (c, st', w')
      \<and> command \<noteq> ''p'' \<and> command \<noteq> [ESC, CHR ''['', CHR ''D''] \<and> command \<noteq> ''g'' \<longrightarrow>
      0 \<le> next_step st' \<and> next_step st' \<le> int (length actions)"
  proof
    assume h: "0 \<le> next_step st \<and> next_step st < int (length actions)
      \<and> apply_command E actions st a command w = Inr (c, st', w')
      \<and> command \<noteq> ''p'' \<and> command \<noteq> [ESC, CHR ''['', CHR ''D''] \<and> command \<noteq> ''g''"
    then have "apply_command E actions st a command w = Inr (c, st', w')" by blast
    from apply_command_cursor[OF this] h
    show "0 \<le> next_step st' \<and> next_step st' \<le> int (length actions)"
      by (simp split: if_splits)
  qed
  have i: "py_index actions (next_step st) = Some a
      \<and> catchup fuel E st (act_slide a) (save st w) = Some w1 \<longrightarrow>
      iteration fuel E actions st w =
        Some (apply_command E actions st a
                (if interactive st then key_of E (keys_read w1) else ''y'')
                (if interactive st then snd (getchar E w1) else w1))"
    using iteration_interactive by blast
  have d: "int (length actions) \<le> next_step st \<longrightarrow> run fuel E actions st w = Some (Inr (st, w))"
    by (simp add: run_done)
  have b: "next_step st < int (length actions)
      \<and> iteration (Suc fuel) E actions st w = Some (Inr (Break, st', w')) \<longrightarrow>
      run (Suc fuel) E actions st w = Some (Inr (st', w'))"
    by simp
  have k: "next_step st < int (length actions)
      \<and> iteration (Suc fuel) E actions st w = Some (Inr (Continue, st', w')) \<longrightarrow>
      run (Suc fuel) E actions st w = run fuel E actions st' w'"
    by simp
  have rc: "0 \<le> next_step st \<and> next_step st \<le> int (length actions)
      \<and> (\<forall>k. key_of E k \<noteq> ''p'' \<and> key_of E k \<noteq> [ESC, CHR ''['', CHR ''D'']
               \<and> key_of E k \<noteq> ''g'')
      \<and> run fuel E actions st w = Some (Inr (st', w')) \<longrightarrow>
      0 \<le> next_step st' \<and> next_step st' \<le> int (length actions)
      \<and> ((\<forall>k. key_of E k \<noteq> ''q'') \<longrightarrow> next_step st' = int (length actions))"
  proof
    assume h: "0 \<le> next_step st \<and> next_step st \<le> int (length actions)
      \<and> (\<forall>k. key_of E k \<noteq> ''p'' \<and> key_of E k \<noteq> [ESC, CHR ''['', CHR ''D'']
               \<and> key_of E k \<noteq> ''g'')
      \<and> run fuel E actions st w = Some (Inr (st', w'))"
    then have h1: "0 \<le> next_step st" and h2: "next_step st \<le> int (length actions)"
      and h3: "\<forall>k. key_of E k \<noteq> ''p'' \<and> key_of E k \<noteq> [ESC, CHR ''['', CHR ''D'']
               \<and> key_of E k \<noteq> ''g''"
      and h4: "run fuel E actions st w = Some (Inr (st', w'))"
      by blast+
    show "0 \<le> next_step st' \<and> next_step st' \<le> int (length actions)
      \<and> ((\<forall>k. key_of E k \<noteq> ''q'') \<longrightarrow> next_step st' = int (length actions))"
      by (rule run_cursor[OF h3 h1 h2 h4])
  qed
  show ?thesis
    by (intro conjI n p t g y u r i d b k rc)
qed

text \<open>The theorem on a list of one action, from the cursor 0.  The operator who presses \<^verbatim>\<open>n\<close>
  leaves the cursor at 1, the length of the list, and the loop stops there.  The operator
  who presses \<^verbatim>\<open>q\<close> stops the loop with the cursor still at 0, below the length of the
  list.\<close>

theorem cursor_range_witness:
  "next_step State_init = 0 \<and> length only_bash = 1
   \<and> apply_command advancing_operator only_bash State_init (hd only_bash) ''n'' world0 =
       Inr (Continue, State_init\<lparr>next_step := 1\<rparr>, world0)
   \<and> run (Suc (Suc 0)) advancing_operator only_bash State_init world0 =
       Some (Inr (State_init\<lparr>next_step := 1\<rparr>,
         \<lparr>now = 0, captures = 0, keys_read = 2, numbers_read = 0, randoms = 0, tokens = 0,
          state_yaml = Some (dump State_init), slide_on_screen = 1,
          trace = [Save_state (dump State_init), Getchar ''z'', Goto_slide 1, Workspace 3,
                   Workspace 1, Getchar ''n'']\<rparr>))
   \<and> next_step (State_init\<lparr>next_step := 1\<rparr>) = int (length only_bash)
   \<and> run (Suc (Suc 0)) quitting_operator only_bash State_init world0 =
       Some (Inr (State_init,
         \<lparr>now = 0, captures = 0, keys_read = 2, numbers_read = 0, randoms = 0, tokens = 0,
          state_yaml = Some (dump State_init), slide_on_screen = 1,
          trace = [Save_state (dump State_init), Getchar ''z'', Goto_slide 1, Workspace 3,
                   Workspace 1, Getchar ''q'']\<rparr>))
   \<and> next_step State_init < int (length only_bash)"
proof -
  let ?A = advancing_operator and ?Q = quitting_operator
  let ?a = "\<lparr>act_slide = 1, act_method = ''bash'', act_data = ''ls''\<rparr>"
  let ?st1 = "State_init\<lparr>next_step := 1\<rparr>"
  let ?w1 = "\<lambda>E. goto 1 (snd (getchar E (save State_init world0)))"
  let ?Wn = "\<lparr>now = 0, captures = 0, keys_read = 2, numbers_read = 0, randoms = 0, tokens = 0,
          state_yaml = Some (dump State_init), slide_on_screen = 1,
          trace = [Save_state (dump State_init), Getchar ''z'', Goto_slide 1, Workspace 3,
                   Workspace 1, Getchar ''n'']\<rparr>"
  let ?Wq = "\<lparr>now = 0, captures = 0, keys_read = 2, numbers_read = 0, randoms = 0, tokens = 0,
          state_yaml = Some (dump State_init), slide_on_screen = 1,
          trace = [Save_state (dump State_init), Getchar ''z'', Goto_slide 1, Workspace 3,
                   Workspace 1, Getchar ''q'']\<rparr>"
  have ns: "next_step State_init = 0" and int: "interactive State_init"
    by (simp_all add: State_init_def)
  have len: "length only_bash = 1" and hd: "hd only_bash = ?a"
    by (simp_all add: only_bash_def)
  have i: "py_index only_bash (next_step State_init) = Some ?a"
    by (simp add: py_index_def only_bash_def ns)
  have c: "catchup (Suc (Suc 0)) E State_init (act_slide ?a) (save State_init world0) = Some (?w1 E)"
    if "key_of E 0 = ''z''" for E
    using that
    by (simp add: catchup_def int getchar_def goto_def focus_slides_def save_def world0_def)
  have kA: "key_of ?A 0 = ''z''" "key_of ?A (Suc 0) = ''n''"
    and kQ: "key_of ?Q 0 = ''z''" "key_of ?Q (Suc 0) = ''q''"
    by (simp_all add: advancing_operator_def quitting_operator_def)
  have k1: "keys_read (?w1 E) = Suc 0" for E
    by (simp add: goto_def focus_slides_def getchar_def save_def world0_def)
  have wn: "snd (getchar ?A (?w1 ?A)) = ?Wn" and wq: "snd (getchar ?Q (?w1 ?Q)) = ?Wq"
    by (simp_all add: getchar_def goto_def focus_slides_def save_def world0_def kA kQ)
  note c2 = conjunct2
  have itA: "iteration (Suc (Suc 0)) ?A only_bash State_init world0 =
      Some (apply_command ?A only_bash State_init ?a ''n'' ?Wn)"
    using cursor_range_by_command[where E = ?A and actions = only_bash and st = State_init
        and a = ?a and w = world0 and ?w1.0 = "?w1 ?A" and fuel = "Suc (Suc 0)",
        THEN c2, THEN c2, THEN c2, THEN c2, THEN c2, THEN c2, THEN c2, THEN c2, THEN c2, THEN c2,
        THEN conjunct1]
      i c[OF kA(1)]
    by (simp add: int k1 kA wn)
  have apA: "apply_command ?A only_bash State_init ?a ''n'' v =
      Inr (Continue, ?st1, v)" for v
    using cursor_range_by_command[where E = ?A and actions = only_bash and st = State_init
        and a = ?a and w = v and command = "''n''", THEN conjunct1]
    by (simp add: ns)
  have doneA: "run (Suc 0) ?A only_bash ?st1 ?Wn = Some (Inr (?st1, ?Wn))"
    using cursor_range_by_command[where E = ?A and actions = only_bash and st = ?st1
        and w = ?Wn and fuel = "Suc 0",
        THEN c2, THEN c2, THEN c2, THEN c2, THEN c2, THEN c2, THEN c2, THEN c2, THEN c2, THEN c2,
        THEN c2, THEN conjunct1]
    by (simp add: len)
  have runA: "run (Suc (Suc 0)) ?A only_bash State_init world0 = Some (Inr (?st1, ?Wn))"
    using cursor_range_by_command[where E = ?A and actions = only_bash and st = State_init
        and w = world0 and fuel = "Suc 0" and st' = ?st1 and w' = ?Wn,
        THEN c2, THEN c2, THEN c2, THEN c2, THEN c2, THEN c2, THEN c2, THEN c2, THEN c2, THEN c2,
        THEN c2, THEN c2, THEN c2, THEN conjunct1]
      itA apA doneA
    by (simp add: ns len)
  have keysA: "\<forall>k. key_of ?A k \<noteq> ''p'' \<and> key_of ?A k \<noteq> [ESC, CHR ''['', CHR ''D'']
               \<and> key_of ?A k \<noteq> ''g''" "\<forall>k. key_of ?A k \<noteq> ''q''"
    by (simp_all add: advancing_operator_def)
  have endA: "next_step ?st1 = int (length only_bash)"
    using cursor_range_by_command[where E = ?A and actions = only_bash and st = State_init
        and w = world0 and fuel = "Suc (Suc 0)" and st' = ?st1 and w' = ?Wn,
        THEN c2, THEN c2, THEN c2, THEN c2, THEN c2, THEN c2, THEN c2, THEN c2, THEN c2, THEN c2,
        THEN c2, THEN c2, THEN c2, THEN c2]
      runA keysA
    by (simp add: ns len)
  have itQ: "iteration (Suc (Suc 0)) ?Q only_bash State_init world0 =
      Some (apply_command ?Q only_bash State_init ?a ''q'' ?Wq)"
    using cursor_range_by_command[where E = ?Q and actions = only_bash and st = State_init
        and a = ?a and w = world0 and ?w1.0 = "?w1 ?Q" and fuel = "Suc (Suc 0)",
        THEN c2, THEN c2, THEN c2, THEN c2, THEN c2, THEN c2, THEN c2, THEN c2, THEN c2, THEN c2,
        THEN conjunct1]
      i c[OF kQ(1)]
    by (simp add: int k1 kQ wq)
  have apQ: "apply_command ?Q only_bash State_init ?a ''q'' v = Inr (Break, State_init, v)" for v
    by (rule cursor_range_by_command[where E = ?Q and actions = only_bash and st = State_init
        and a = ?a and w = v,
        THEN c2, THEN c2, THEN c2, THEN c2, THEN c2, THEN conjunct1])
  have runQ: "run (Suc (Suc 0)) ?Q only_bash State_init world0 = Some (Inr (State_init, ?Wq))"
    using cursor_range_by_command[where E = ?Q and actions = only_bash and st = State_init
        and w = world0 and fuel = "Suc 0" and st' = State_init and w' = ?Wq,
        THEN c2, THEN c2, THEN c2, THEN c2, THEN c2, THEN c2, THEN c2, THEN c2, THEN c2, THEN c2,
        THEN c2, THEN c2, THEN conjunct1]
      itQ apQ
    by (simp add: ns len)
  from ns len apA[of world0] runA endA runQ show ?thesis
    by (simp add: hd)
qed

text \<open>
  C4, as the specification words it, fails.  From the state of a fresh start, cursor 0, on
  a list of one action: the operator who presses \<^verbatim>\<open>p\<close> leaves the cursor at -1, and the
  operator who jumps to 1000 leaves it at 1000.
\<close>

theorem cursor_leaves_range_counterexample:
  "next_step State_init = 0 \<and> length only_bash = 1
   \<and> iteration (Suc (Suc 0)) retreating_operator only_bash State_init world0 =
       Some (Inr (Continue, State_init\<lparr>next_step := - 1\<rparr>,
         snd (getchar retreating_operator
           (goto 1 (snd (getchar retreating_operator (save State_init world0)))))))
   \<and> iteration (Suc (Suc 0)) far_jump only_bash State_init world0 =
       Some (Inr (Continue, State_init\<lparr>next_step := 1000\<rparr>,
         snd (prompt_int far_jump (snd (getchar far_jump
           (goto 1 (snd (getchar far_jump (save State_init world0)))))))))"
proof -
  have i: "py_index only_bash (next_step State_init) = Some (hd only_bash)"
    by (simp add: py_index_def only_bash_def State_init_def)
  have s: "act_slide (hd only_bash) = 1" by (simp add: only_bash_def)
  have int: "interactive State_init" by (simp add: State_init_def)
  have k: "keys_read (save State_init world0) = 0" "slide_on_screen (save State_init world0) = 0"
    by (simp_all add: save_def world0_def)
  have c: "catchup (Suc (Suc 0)) E State_init 1 (save State_init world0) =
      Some (goto 1 (snd (getchar E (save State_init world0))))"
    if "key_of E 0 = ''z''" for E
    using that
    by (simp add: catchup_def int getchar_def goto_def focus_slides_def save_def world0_def)
  have k1: "keys_read (goto 1 (snd (getchar E (save State_init world0)))) = Suc 0" for E
    by (simp add: goto_def focus_slides_def getchar_def k)
  have ns: "next_step State_init = 0" by (simp add: State_init_def)
  have fg: "fst (getchar E v) = key_of E (keys_read v)" for E v
    by (simp add: getchar_def)
  have kp: "key_of retreating_operator 0 = ''z''" "key_of retreating_operator (Suc 0) = ''p''"
    and kg: "key_of far_jump 0 = ''z''" "key_of far_jump (Suc 0) = ''g''"
    and ng: "number_of far_jump n = 1000" for n
    by (simp_all add: retreating_operator_def far_jump_def)
  have p: "iteration (Suc (Suc 0)) retreating_operator only_bash State_init world0 =
       Some (Inr (Continue, State_init\<lparr>next_step := - 1\<rparr>,
         snd (getchar retreating_operator
           (goto 1 (snd (getchar retreating_operator (save State_init world0)))))))"
    unfolding iteration_def i option.case s c[OF kp(1)]
    by (simp add: int fg k1 kp apply_command_retreat ns)
  have g: "iteration (Suc (Suc 0)) far_jump only_bash State_init world0 =
       Some (Inr (Continue, State_init\<lparr>next_step := 1000\<rparr>,
         snd (prompt_int far_jump (snd (getchar far_jump
           (goto 1 (snd (getchar far_jump (save State_init world0)))))))))"
    unfolding iteration_def i option.case s c[OF kg(1)]
    by (simp add: int fg k1 kg apply_command_jump ng)
  show ?thesis using p g by (simp add: State_init_def only_bash_def)
qed

end
